theory Spec2Isabelle
  imports Main "HOL-Library.Sublist"
begin

section \<open>Values that cross the wire\<close>

text \<open>
  The chat page talks to its services through axios and reads the answers with plain
  property access, so the model needs the run-time values of JavaScript as far as JSON
  goes, with \<open>undefined\<close> for a property that is not there. Numbers are integers
  here: the page only ever tests a number for being zero. A string is held as the bytes
  of its UTF-8 encoding.
\<close>

datatype jsval =
    JUndefined
  | JNull
  | JBool bool
  | JNum int
  | JStr string
  | JArr "jsval list"
  | JObj "(string \<times> jsval) list"

text \<open>What a \<open>throw\<close> or a rejected promise carries.\<close>

datatype js_error =
    AxiosError string
  | TypeError
  | SyntaxError
  | Thrown string

type_synonym 'a result = "js_error + 'a"

text \<open>The condition of an \<open>if (v)\<close>.\<close>

fun truthy :: "jsval \<Rightarrow> bool" where
  "truthy JUndefined = False"
| "truthy JNull = False"
| "truthy (JBool b) = b"
| "truthy (JNum n) = (n \<noteq> 0)"
| "truthy (JStr s) = (s \<noteq> [])"
| "truthy (JArr xs) = True"
| "truthy (JObj kvs) = True"

text \<open>
  The same test on the optional fields of the router's location state and on the
  optional parameter \<open>projId?: number\<close>; \<open>None\<close> is \<open>undefined\<close>.
\<close>

fun truthy_num :: "int option \<Rightarrow> bool" where
  "truthy_num None = False"
| "truthy_num (Some n) = (n \<noteq> 0)"

fun truthy_str :: "string option \<Rightarrow> bool" where
  "truthy_str None = False"
| "truthy_str (Some s) = (s \<noteq> [])"

fun truthy_bool :: "bool option \<Rightarrow> bool" where
  "truthy_bool None = False"
| "truthy_bool (Some b) = b"

text \<open>
  \<open>v.name\<close> for the property names the page reads (\<open>content\<close>, \<open>text\<close>,
  \<open>data\<close>, \<open>publicUrl\<close>, \<open>previewUrl\<close>, \<open>deploymentUrl\<close>, \<open>files\<close>,
  \<open>structure\<close>, \<open>codeFiles\<close>, \<open>path\<close>): reading from \<open>undefined\<close> or
  \<open>null\<close> throws a TypeError, an object gives the property or \<open>undefined\<close>, every
  other value has no such property.
\<close>

fun get_prop :: "jsval \<Rightarrow> string \<Rightarrow> jsval result" where
  "get_prop JUndefined name = Inl TypeError"
| "get_prop JNull name = Inl TypeError"
| "get_prop (JObj kvs) name = Inr (case map_of kvs name of None \<Rightarrow> JUndefined | Some v \<Rightarrow> v)"
| "get_prop v name = Inr JUndefined"

text \<open>
  \<open>v[0]\<close>. Of a string the model keeps the first byte; the page reads nothing
  from that value but a \<open>text\<close> property, which no string has.
\<close>

fun get_index0 :: "jsval \<Rightarrow> jsval result" where
  "get_index0 JUndefined = Inl TypeError"
| "get_index0 JNull = Inl TypeError"
| "get_index0 (JArr []) = Inr JUndefined"
| "get_index0 (JArr (x # xs)) = Inr x"
| "get_index0 (JStr []) = Inr JUndefined"
| "get_index0 (JStr (c # cs)) = Inr (JStr [c])"
| "get_index0 (JObj kvs) = Inr (case map_of kvs ''0'' of None \<Rightarrow> JUndefined | Some v \<Rightarrow> v)"
| "get_index0 v = Inr JUndefined"

text \<open>\<open>body.content[0].text\<close>, the text of a model answer.\<close>

definition content0_text :: "jsval \<Rightarrow> jsval result" where
  "content0_text body =
     (case get_prop body ''content'' of
        Inl e \<Rightarrow> Inl e
      | Inr c \<Rightarrow>
          (case get_index0 c of
             Inl e \<Rightarrow> Inl e
           | Inr c0 \<Rightarrow> get_prop c0 ''text''))"

text \<open>
  \<open>parsedData.map((item) => ({ path: item.path, content: item.content }))\<close>: only an
  array has \<open>map\<close>; an item that is \<open>null\<close> makes the callback throw; a property
  the item does not have is copied as \<open>undefined\<close>.
\<close>

definition pick_path_content :: "jsval \<Rightarrow> jsval result" where
  "pick_path_content item =
     (case get_prop item ''path'' of
        Inl e \<Rightarrow> Inl e
      | Inr p \<Rightarrow>
          (case get_prop item ''content'' of
             Inl e \<Rightarrow> Inl e
           | Inr c \<Rightarrow> Inr (JObj [(''path'', p), (''content'', c)])))"

fun map_items :: "jsval list \<Rightarrow> (jsval list) result" where
  "map_items [] = Inr []"
| "map_items (item # items) =
     (case pick_path_content item of
        Inl e \<Rightarrow> Inl e
      | Inr f \<Rightarrow>
          (case map_items items of
             Inl e \<Rightarrow> Inl e
           | Inr fs \<Rightarrow> Inr (f # fs)))"

fun map_path_content :: "jsval \<Rightarrow> jsval result" where
  "map_path_content (JArr items) =
     (case map_items items of Inl e \<Rightarrow> Inl e | Inr fs \<Rightarrow> Inr (JArr fs))"
| "map_path_content v = Inl TypeError"

text \<open>
  What the callback above builds from an item that is an object, or any value other
  than \<open>null\<close> and \<open>undefined\<close>: \<open>field item name\<close> is the property,
  or \<open>undefined\<close> when the item does not have it.
\<close>

fun field :: "jsval \<Rightarrow> string \<Rightarrow> jsval" where
  "field (JObj kvs) name = (case map_of kvs name of None \<Rightarrow> JUndefined | Some v \<Rightarrow> v)"
| "field v name = JUndefined"

definition path_and_content :: "jsval \<Rightarrow> jsval" where
  "path_and_content item = JObj [(''path'', field item ''path''), (''content'', field item ''content'')]"

fun is_array :: "jsval \<Rightarrow> bool" where
  "is_array (JArr items) = True"
| "is_array v = False"

text \<open>
  \<open>s.trim()\<close> strips white space and line terminators from both ends: tab, line
  feed, vertical tab, form feed, carriage return, space, U+00A0, U+1680, U+2000 to
  U+200A, U+2028, U+2029, U+202F, U+205F, U+3000 and U+FEFF. These are their UTF-8
  encodings.
\<close>

definition white_space :: "string list" where
  "white_space =
     [[CHR 0x09], [CHR 0x0A], [CHR 0x0B], [CHR 0x0C], [CHR 0x0D], [CHR 0x20],
      [CHR 0xC2, CHR 0xA0],
      [CHR 0xE1, CHR 0x9A, CHR 0x80],
      [CHR 0xE2, CHR 0x80, CHR 0x80], [CHR 0xE2, CHR 0x80, CHR 0x81],
      [CHR 0xE2, CHR 0x80, CHR 0x82], [CHR 0xE2, CHR 0x80, CHR 0x83],
      [CHR 0xE2, CHR 0x80, CHR 0x84], [CHR 0xE2, CHR 0x80, CHR 0x85],
      [CHR 0xE2, CHR 0x80, CHR 0x86], [CHR 0xE2, CHR 0x80, CHR 0x87],
      [CHR 0xE2, CHR 0x80, CHR 0x88], [CHR 0xE2, CHR 0x80, CHR 0x89],
      [CHR 0xE2, CHR 0x80, CHR 0x8A],
      [CHR 0xE2, CHR 0x80, CHR 0xA8], [CHR 0xE2, CHR 0x80, CHR 0xA9],
      [CHR 0xE2, CHR 0x80, CHR 0xAF],
      [CHR 0xE2, CHR 0x81, CHR 0x9F],
      [CHR 0xE3, CHR 0x80, CHR 0x80],
      [CHR 0xEF, CHR 0xBB, CHR 0xBF]]"

text \<open>
  The number of bytes of the character from \<open>ws\<close> that \<open>s\<close> begins with, or 0.
  No encoding in the list is the beginning of another one.
\<close>

definition space_length :: "string list \<Rightarrow> string \<Rightarrow> nat" where
  "space_length ws s =
     (if take 1 s \<in> set ws then 1
      else if take 2 s \<in> set ws then 2
      else if take 3 s \<in> set ws then 3
      else 0)"

function strip :: "string list \<Rightarrow> string \<Rightarrow> string" where
  "strip ws s =
     (if s = [] \<or> space_length ws s = 0 then s
      else strip ws (drop (space_length ws s) s))"
  by pat_completeness auto
termination
  by (relation "measure (\<lambda>(ws, s). length s)") auto

declare strip.simps [simp del]

definition trimStart :: "string \<Rightarrow> string" where
  "trimStart s = strip white_space s"

definition trimEnd :: "string \<Rightarrow> string" where
  "trimEnd s = rev (strip (map rev white_space) (rev s))"

definition trim :: "string \<Rightarrow> string" where
  "trim s = trimEnd (trimStart s)"

section \<open>Requests and other calls that leave the component\<close>

datatype endpoint =
    ApiProjects int
  | GenerateFrontend
  | WriteFiles
  | ZipFolder
  | BuildRun
  | GenerateChanges
  | ExtractFilesToChange
  | Modify

datatype request =
    Get endpoint
  | Post endpoint jsval
  | Put endpoint jsval

fun endpoint_of :: "request \<Rightarrow> endpoint" where
  "endpoint_of (Get e) = e"
| "endpoint_of (Post e b) = e"
| "endpoint_of (Put e b) = e"

text \<open>
  What a run does to the world outside the component, in order: a request handed to
  axios, a call of the parser module, a call of the context's \<open>setValue\<close>, a line
  written with \<open>console.error\<close>.
\<close>

datatype action =
    Request request
  | ParseFrontendCode jsval
  | SetValue jsval
  | ConsoleError string js_error

text \<open>
  Three functions the page calls are not part of the component: \<open>parseFrontendCode\<close>,
  imported from \<open>../utils/newParserWithst\<close>, and the built-ins \<open>JSON.parse\<close> and
  \<open>JSON.stringify\<close>. They are parameters of the model; the first two may throw.
\<close>

record deps =
  parseFrontendCode :: "jsval \<Rightarrow> jsval result"
  JSON_parse :: "jsval \<Rightarrow> jsval result"
  JSON_stringify :: "jsval \<Rightarrow> string"

section \<open>The state of ChatPage\<close>

datatype status = Idle | Loading | Ready | Error

datatype sender = User | Assistant

text \<open>
  A chat message. \<open>msg_id\<close> is the number whose decimal string is the message's
  \<open>id\<close>; \<open>timestamp\<close> is the clock reading of \<open>new Date()\<close>.
\<close>

record message =
  msg_id :: nat
  content :: string
  msg_type :: sender
  timestamp :: nat

text \<open>
  The \<open>useState\<close> cells, the three refs and the value of the structure context,
  followed by the trace of actions. A setter takes effect at once, and a function reads
  the cells as they are when it is called: React renders between two events, and the
  handlers of a render see its state. The one value a callback keeps from an earlier
  render is a parameter of the model (\<open>seen\<close>, below).
\<close>

record chat_state =
  ctxValue :: jsval
  loadingCode :: bool
  messages :: "message list"
  prompt :: string
  isLoading :: bool
  previewUrl :: jsval
  error :: string
  projectStatus :: status
  hasInitialized :: bool
  isGenerating :: bool
  currentProjectId :: "int option"
  trace :: "action list"

definition initial_state :: chat_state where
  "initial_state =
     \<lparr>ctxValue = JObj [], loadingCode = False, messages = [], prompt = [],
      isLoading = False, previewUrl = JStr [], error = [], projectStatus = Idle,
      hasInitialized = False, isGenerating = False, currentProjectId = None,
      trace = []\<rparr>"

definition emit :: "action \<Rightarrow> chat_state \<Rightarrow> chat_state" where
  "emit a s = s\<lparr>trace := trace s @ [a]\<rparr>"

text \<open>
  An \<open>await axios...\<close> hands the request over and suspends the function; \<open>'k\<close> says
  where it resumes.
\<close>

definition await :: "request \<Rightarrow> 'k \<Rightarrow> chat_state \<Rightarrow> chat_state \<times> (request \<times> 'k) option" where
  "await rq k s = (emit (Request rq) s, Some (rq, k))"

definition finished :: "chat_state \<Rightarrow> chat_state \<times> (request \<times> 'k) option" where
  "finished s = (s, None)"

section \<open>fetchProjectDeploymentUrl\<close>

text \<open>
  The callback reads \<open>projectStatus\<close> from the render that created it; \<open>seen\<close> is
  that value. There is one suspension point.
\<close>

datatype fetch_await = AwaitProject

definition fetch_finally :: "chat_state \<Rightarrow> chat_state \<times> (request \<times> fetch_await) option" where
  "fetch_finally s = finished (s\<lparr>loadingCode := False\<rparr>)"

definition fetch_catch :: "js_error \<Rightarrow> chat_state \<Rightarrow> chat_state \<times> (request \<times> fetch_await) option" where
  "fetch_catch e s =
     fetch_finally
       ((emit (ConsoleError ''Error fetching project:'' e) s)
          \<lparr>error := ''Failed to load project'', projectStatus := Error\<rparr>)"

definition fetchProjectDeploymentUrl_begin ::
  "status \<Rightarrow> int \<Rightarrow> chat_state \<Rightarrow> chat_state \<times> (request \<times> fetch_await) option" where
  "fetchProjectDeploymentUrl_begin seen projId s =
     (if currentProjectId s = Some projId \<and> seen \<noteq> Idle then finished s
      else await (Get (ApiProjects projId)) AwaitProject
             (s\<lparr>loadingCode := True, error := [], projectStatus := Loading,
                currentProjectId := Some projId\<rparr>))"

fun fetchProjectDeploymentUrl_resume ::
  "fetch_await \<Rightarrow> jsval result \<Rightarrow> chat_state \<Rightarrow> chat_state \<times> (request \<times> fetch_await) option" where
  "fetchProjectDeploymentUrl_resume AwaitProject r s =
     (case r of
        Inl e \<Rightarrow> fetch_catch e s
      | Inr project \<Rightarrow>
          (case get_prop project ''deploymentUrl'' of
             Inl e \<Rightarrow> fetch_catch e s
           | Inr url \<Rightarrow>
               if truthy url
               then fetch_finally (s\<lparr>previewUrl := url, projectStatus := Ready\<rparr>)
               else fetch_finally
                      (s\<lparr>projectStatus := Error,
                         error := ''Project deployment URL not found''\<rparr>)))"

section \<open>generateCode\<close>

text \<open>The suspension points of \<open>generateCode\<close>, with the locals alive across each.\<close>

datatype gen_await =
    AwaitExisting string "int option"
  | AwaitFrontend "int option"
  | AwaitWrite "int option"
  | AwaitZip "int option"
  | AwaitBuild "int option"
  | AwaitRecord

definition gen_finally :: "chat_state \<Rightarrow> chat_state \<times> (request \<times> gen_await) option" where
  "gen_finally s = finished (s\<lparr>loadingCode := False, isGenerating := False\<rparr>)"

definition gen_catch :: "js_error \<Rightarrow> chat_state \<Rightarrow> chat_state \<times> (request \<times> gen_await) option" where
  "gen_catch e s =
     gen_finally
       ((emit (ConsoleError ''Error generating code:'' e) s)
          \<lparr>error := ''Failed to generate code'', projectStatus := Error\<rparr>)"

definition post_generateFrontend ::
  "string \<Rightarrow> int option \<Rightarrow> chat_state \<Rightarrow> chat_state \<times> (request \<times> gen_await) option" where
  "post_generateFrontend userPrompt projId s =
     await (Post GenerateFrontend (JObj [(''prompt'', JStr userPrompt)])) (AwaitFrontend projId) s"

text \<open>From the call to the first \<open>await\<close>.\<close>

definition generateCode_begin ::
  "string \<Rightarrow> int option \<Rightarrow> chat_state \<Rightarrow> chat_state \<times> (request \<times> gen_await) option" where
  "generateCode_begin userPrompt projId s =
     (if isGenerating s then finished s
      else
        let s1 = s\<lparr>isGenerating := True, loadingCode := True, error := [],
                    projectStatus := Loading\<rparr>
        in if truthy_num projId
           then await (Get (ApiProjects (the projId))) (AwaitExisting userPrompt projId) s1
           else post_generateFrontend userPrompt projId s1)"

text \<open>From one \<open>await\<close>, settled with \<open>r\<close>, to the next or to the end.\<close>

fun generateCode_resume ::
  "deps \<Rightarrow> gen_await \<Rightarrow> jsval result \<Rightarrow> chat_state \<Rightarrow> chat_state \<times> (request \<times> gen_await) option" where
  "generateCode_resume d (AwaitExisting userPrompt projId) r s =
     (case r of
        Inl e \<Rightarrow> gen_catch e s
      | Inr existingProject \<Rightarrow>
          (case get_prop existingProject ''deploymentUrl'' of
             Inl e \<Rightarrow> gen_catch e s
           | Inr url \<Rightarrow>
               if truthy url
               then gen_finally
                      (s\<lparr>previewUrl := url, projectStatus := Ready,
                         loadingCode := False, isGenerating := False\<rparr>)
               else post_generateFrontend userPrompt projId s))"
| "generateCode_resume d (AwaitFrontend projId) r s =
     (case r of
        Inl e \<Rightarrow> gen_catch e s
      | Inr frontendres \<Rightarrow>
          (case content0_text frontendres of
             Inl e \<Rightarrow> gen_catch e s
           | Inr txt \<Rightarrow>
               let s1 = emit (ParseFrontendCode txt) s
               in (case parseFrontendCode d txt of
                     Inl e \<Rightarrow> gen_catch e s1
                   | Inr parsedFrontend \<Rightarrow>
                       (case get_prop parsedFrontend ''structure'' of
                          Inl e \<Rightarrow> gen_catch e s1
                        | Inr structure \<Rightarrow>
                            let s2 = (emit (SetValue structure) s1)\<lparr>ctxValue := structure\<rparr>
                            in (case get_prop parsedFrontend ''codeFiles'' of
                                  Inl e \<Rightarrow> gen_catch e s2
                                | Inr codeFiles \<Rightarrow>
                                    await (Post WriteFiles (JObj [(''files'', codeFiles)]))
                                      (AwaitWrite projId) s2)))))"
| "generateCode_resume d (AwaitWrite projId) r s =
     (case r of
        Inl e \<Rightarrow> gen_catch e s
      | Inr written \<Rightarrow> await (Get ZipFolder) (AwaitZip projId) s)"
| "generateCode_resume d (AwaitZip projId) r s =
     (case r of
        Inl e \<Rightarrow> gen_catch e s
      | Inr res \<Rightarrow>
          (case get_prop res ''data'' of
             Inl e \<Rightarrow> gen_catch e s
           | Inr dat \<Rightarrow>
               (case get_prop dat ''publicUrl'' of
                  Inl e \<Rightarrow> gen_catch e s
                | Inr publicUrl \<Rightarrow>
                    await (Post BuildRun (JObj [(''zipUrl'', publicUrl)])) (AwaitBuild projId) s)))"
| "generateCode_resume d (AwaitBuild projId) r s =
     (case r of
        Inl e \<Rightarrow> gen_catch e s
      | Inr built \<Rightarrow>
          (case get_prop built ''previewUrl'' of
             Inl e \<Rightarrow> gen_catch e s
           | Inr url \<Rightarrow>
               let s1 = s\<lparr>previewUrl := url, projectStatus := Ready\<rparr>
               in if truthy_num projId \<and> truthy url
                  then await (Put (ApiProjects (the projId))
                                (JObj [(''deploymentUrl'', url), (''status'', JStr ''ready'')]))
                         AwaitRecord s1
                  else gen_finally s1))"
| "generateCode_resume d AwaitRecord r s =
     (case r of
        Inl e \<Rightarrow> gen_catch e s
      | Inr recorded \<Rightarrow> gen_finally s)"

text \<open>
  A whole run, every request answered by \<open>env\<close>. The function is total: each
  resumption moves to a later suspension point.
\<close>

fun gen_rank :: "gen_await \<Rightarrow> nat" where
  "gen_rank (AwaitExisting p i) = 6"
| "gen_rank (AwaitFrontend i) = 5"
| "gen_rank (AwaitWrite i) = 4"
| "gen_rank (AwaitZip i) = 3"
| "gen_rank (AwaitBuild i) = 2"
| "gen_rank AwaitRecord = 1"

fun gen_pending_rank :: "(request \<times> gen_await) option \<Rightarrow> nat" where
  "gen_pending_rank None = 0"
| "gen_pending_rank (Some (rq, k)) = gen_rank k"

function run_generate ::
  "deps \<Rightarrow> (request \<Rightarrow> jsval result) \<Rightarrow> chat_state \<times> (request \<times> gen_await) option \<Rightarrow> chat_state" where
  "run_generate d env (s, None) = s"
| "run_generate d env (s, Some (rq, k)) = run_generate d env (generateCode_resume d k (env rq) s)"
  by pat_completeness auto
termination
proof (relation "measure (\<lambda>(d, env, p). gen_pending_rank (snd p))")
  show "wf (measure (\<lambda>(d, env, p). gen_pending_rank (snd p)))"
    by simp
next
  fix d :: deps and env :: "request \<Rightarrow> jsval result" and s rq k
  have "gen_pending_rank (snd (generateCode_resume d k (env rq) s)) < gen_rank k"
    by (cases k)
       (auto simp: gen_catch_def gen_finally_def finished_def await_def
                   post_generateFrontend_def Let_def
             split: sum.splits)
  then show "((d, env, generateCode_resume d k (env rq) s), (d, env, s, Some (rq, k)))
               \<in> measure (\<lambda>(d, env, p). gen_pending_rank (snd p))"
    by simp
qed

definition generateCode ::
  "deps \<Rightarrow> (request \<Rightarrow> jsval result) \<Rightarrow> string \<Rightarrow> int option \<Rightarrow> chat_state \<Rightarrow> chat_state" where
  "generateCode d env userPrompt projId s =
     run_generate d env (generateCode_begin userPrompt projId s)"

section \<open>handleSubmit\<close>

definition analysis_header :: string where
  \<open>analysis_header = ''You are analyzing a Vite React project structure that uses Tailwind CSS for styling. Based on the user's requirement and the provided project structure, identify which files need to be modified to implement the requested changes.\<newline>\<newline>RESPONSE FORMAT:\<newline>Return a JSON object with this exact structure:\<newline>{\<newline>  "files_to_modify": ["array of existing file paths that need changes"],\<newline>  "files_to_create": ["array of new file paths that need to be created"],\<newline>  "reasoning": "brief explanation of why these files were selected",\<newline>  "dependencies": ["array of npm packages that might need to be installed"],\<newline>  "notes": "additional implementation notes or considerations"\<newline>}\<newline>\<newline>PROJECT STRUCTURE: ''\<close>

definition analysisPrompt :: "deps \<Rightarrow> jsval \<Rightarrow> string \<Rightarrow> string" where
  "analysisPrompt d v currentPrompt =
     analysis_header @ JSON_stringify d v @ ''\<newline>USER REQUIREMENT: '' @ currentPrompt"

definition pwd :: string where
  "pwd = ''/Users/manmindersingh/Desktop/code /ai-webisite-builder/react-base-temp''"

text \<open>The suspension points of \<open>handleSubmit\<close>; \<open>currentPrompt\<close> lives until the
  rewrite request.\<close>

datatype submit_await =
    AwaitAnalysis string
  | AwaitExtract string
  | AwaitModify
  | AwaitWriteChanges

text \<open>\<open>now\<close> is the reading of \<open>Date.now()\<close>, \<open>date\<close> that of \<open>new Date()\<close>.\<close>

definition submit_finally :: "chat_state \<Rightarrow> chat_state \<times> (request \<times> submit_await) option" where
  "submit_finally s = finished (s\<lparr>isLoading := False\<rparr>)"

definition submit_catch ::
  "nat \<Rightarrow> nat \<Rightarrow> js_error \<Rightarrow> chat_state \<Rightarrow> chat_state \<times> (request \<times> submit_await) option" where
  "submit_catch now date e s =
     submit_finally
       ((emit (ConsoleError ''Error handling submit:'' e) s)
          \<lparr>error := ''Failed to apply changes'',
           messages := messages s @
             [\<lparr>msg_id = now + 1,
               content = ''Sorry, I encountered an error while applying the changes.'',
               msg_type = Assistant, timestamp = date\<rparr>]\<rparr>)"

definition handleSubmit_begin ::
  "deps \<Rightarrow> nat \<Rightarrow> nat \<Rightarrow> chat_state \<Rightarrow> chat_state \<times> (request \<times> submit_await) option" where
  "handleSubmit_begin d now date s =
     (if trim (prompt s) = [] \<or> isLoading s then finished s
      else
        let newMessage = \<lparr>msg_id = now, content = prompt s, msg_type = User, timestamp = date\<rparr>;
            currentPrompt = prompt s;
            s1 = s\<lparr>isLoading := True, error := [],
                   messages := messages s @ [newMessage], prompt := []\<rparr>
        in await (Post GenerateChanges
                    (JObj [(''prompt'', JStr (analysisPrompt d (ctxValue s) currentPrompt))]))
             (AwaitAnalysis currentPrompt) s1)"

fun handleSubmit_resume ::
  "deps \<Rightarrow> nat \<Rightarrow> nat \<Rightarrow> submit_await \<Rightarrow> jsval result \<Rightarrow> chat_state
     \<Rightarrow> chat_state \<times> (request \<times> submit_await) option" where
  "handleSubmit_resume d now date (AwaitAnalysis currentPrompt) r s =
     (case r of
        Inl e \<Rightarrow> submit_catch now date e s
      | Inr res \<Rightarrow>
          (case content0_text res of
             Inl e \<Rightarrow> submit_catch now date e s
           | Inr analysisResult \<Rightarrow>
               await (Post ExtractFilesToChange
                        (JObj [(''pwd'', JStr pwd), (''analysisResult'', analysisResult)]))
                 (AwaitExtract currentPrompt) s))"
| "handleSubmit_resume d now date (AwaitExtract currentPrompt) r s =
     (case r of
        Inl e \<Rightarrow> submit_catch now date e s
      | Inr filesToChange \<Rightarrow>
          (case get_prop filesToChange ''files'' of
             Inl e \<Rightarrow> submit_catch now date e s
           | Inr files \<Rightarrow>
               await (Post Modify (JObj [(''files'', files), (''prompt'', JStr currentPrompt)]))
                 AwaitModify s))"
| "handleSubmit_resume d now date AwaitModify r s =
     (case r of
        Inl e \<Rightarrow> submit_catch now date e s
      | Inr updatedFile \<Rightarrow>
          (case content0_text updatedFile of
             Inl e \<Rightarrow> submit_catch now date e s
           | Inr txt \<Rightarrow>
               (case JSON_parse d txt of
                  Inl e \<Rightarrow> submit_catch now date e s
                | Inr parsedData \<Rightarrow>
                    (case map_path_content parsedData of
                       Inl e \<Rightarrow> submit_catch now date e s
                     | Inr result \<Rightarrow>
                         await (Post WriteFiles
                                  (JObj [(''baseDir'', JStr pwd), (''files'', result)]))
                           AwaitWriteChanges s))))"
| "handleSubmit_resume d now date AwaitWriteChanges r s =
     (case r of
        Inl e \<Rightarrow> submit_catch now date e s
      | Inr written \<Rightarrow>
          submit_finally
            (s\<lparr>messages := messages s @
                 [\<lparr>msg_id = now + 1, content = ''Changes applied successfully!'',
                   msg_type = Assistant, timestamp = date\<rparr>]\<rparr>))"

fun submit_rank :: "submit_await \<Rightarrow> nat" where
  "submit_rank (AwaitAnalysis p) = 4"
| "submit_rank (AwaitExtract p) = 3"
| "submit_rank AwaitModify = 2"
| "submit_rank AwaitWriteChanges = 1"

fun submit_pending_rank :: "(request \<times> submit_await) option \<Rightarrow> nat" where
  "submit_pending_rank None = 0"
| "submit_pending_rank (Some (rq, k)) = submit_rank k"

text \<open>A whole run; \<open>now\<close> and \<open>date\<close> are the clock readings at its end.\<close>

function run_submit ::
  "deps \<Rightarrow> (request \<Rightarrow> jsval result) \<Rightarrow> nat \<Rightarrow> nat
     \<Rightarrow> chat_state \<times> (request \<times> submit_await) option \<Rightarrow> chat_state" where
  "run_submit d env now date (s, None) = s"
| "run_submit d env now date (s, Some (rq, k)) =
     run_submit d env now date (handleSubmit_resume d now date k (env rq) s)"
  by pat_completeness auto
termination
proof (relation "measure (\<lambda>(d, env, now, date, p). submit_pending_rank (snd p))")
  show "wf (measure (\<lambda>(d, env, now, date, p). submit_pending_rank (snd p)))"
    by simp
next
  fix d :: deps and env :: "request \<Rightarrow> jsval result" and now date :: nat and s rq k
  have "submit_pending_rank (snd (handleSubmit_resume d now date k (env rq) s)) < submit_rank k"
    by (cases k)
       (auto simp: submit_catch_def submit_finally_def finished_def await_def
             split: sum.splits)
  then show "((d, env, now, date, handleSubmit_resume d now date k (env rq) s),
              (d, env, now, date, s, Some (rq, k)))
               \<in> measure (\<lambda>(d, env, now, date, p). submit_pending_rank (snd p))"
    by simp
qed

definition handleSubmit ::
  "deps \<Rightarrow> (request \<Rightarrow> jsval result) \<Rightarrow> nat \<Rightarrow> nat \<Rightarrow> nat \<Rightarrow> nat \<Rightarrow> chat_state \<Rightarrow> chat_state" where
  "handleSubmit d env now date now' date' s =
     run_submit d env now' date' (handleSubmit_begin d now date s)"

section \<open>The mount effect and the event loop\<close>

text \<open>The router's location state; it does not change while the page is mounted.\<close>

record location =
  navPrompt :: "string option"
  projectId :: "int option"
  existingProject :: "bool option"

text \<open>
  Between two \<open>await\<close>s a function runs without interruption; while it is suspended,
  anything else may run. A pending call is the request it waits for, the point where it
  resumes, and whether \<open>initializeProject\<close> is waiting for the function to return.
\<close>

datatype cont =
    FetchK fetch_await
  | GenK gen_await
  | SubmitK submit_await

type_synonym task = "request \<times> cont \<times> bool"

record system =
  comp :: chat_state
  pending :: "task list"

fun is_generation :: "task \<Rightarrow> bool" where
  "is_generation (rq, GenK k, fl) = True"
| "is_generation (rq, k, fl) = False"

definition active_generations :: "system \<Rightarrow> nat" where
  "active_generations sys = length (filter is_generation (pending sys))"

fun is_modification :: "task \<Rightarrow> bool" where
  "is_modification (rq, SubmitK k, fl) = True"
| "is_modification (rq, k, fl) = False"

definition active_modifications :: "system \<Rightarrow> nat" where
  "active_modifications sys = length (filter is_modification (pending sys))"

fun is_fetch :: "task \<Rightarrow> bool" where
  "is_fetch (rq, FetchK k, fl) = True"
| "is_fetch (rq, k, fl) = False"

definition active_fetches :: "system \<Rightarrow> nat" where
  "active_fetches sys = length (filter is_fetch (pending sys))"

text \<open>
  A function has reached an \<open>await\<close> or its end. At the end, the caller's
  \<open>hasInitialized.current = true\<close> runs if the caller is \<open>initializeProject\<close>.
\<close>

fun spawn :: "('k \<Rightarrow> cont) \<Rightarrow> bool \<Rightarrow> task list \<Rightarrow> chat_state \<times> (request \<times> 'k) option \<Rightarrow> system" where
  "spawn K fl ts (s, None) =
     \<lparr>comp = (if fl then s\<lparr>hasInitialized := True\<rparr> else s), pending = ts\<rparr>"
| "spawn K fl ts (s, Some (rq, k)) = \<lparr>comp = s, pending = ts @ [(rq, K k, fl)]\<rparr>"

fun resume :: "deps \<Rightarrow> nat \<Rightarrow> nat \<Rightarrow> cont \<Rightarrow> bool \<Rightarrow> jsval result \<Rightarrow> task list \<Rightarrow> chat_state \<Rightarrow> system" where
  "resume d now date (FetchK k) fl r ts s = spawn FetchK fl ts (fetchProjectDeploymentUrl_resume k r s)"
| "resume d now date (GenK k) fl r ts s = spawn GenK fl ts (generateCode_resume d k r s)"
| "resume d now date (SubmitK k) fl r ts s = spawn SubmitK fl ts (handleSubmit_resume d now date k r s)"

text \<open>
  The body of the mount effect after the \<open>hasInitialized\<close> test. \<open>seen\<close> is the
  \<open>projectStatus\<close> of the render whose \<open>fetchProjectDeploymentUrl\<close> the effect holds.
\<close>

definition initializeProject :: "location \<Rightarrow> status \<Rightarrow> system \<Rightarrow> system" where
  "initializeProject loc seen sys =
     (if truthy_bool (existingProject loc) \<and> truthy_num (projectId loc)
      then spawn FetchK True (pending sys)
             (fetchProjectDeploymentUrl_begin seen (the (projectId loc)) (comp sys))
      else if truthy_str (navPrompt loc) \<and> truthy_num (projectId loc)
      then spawn GenK True (pending sys)
             (generateCode_begin (the (navPrompt loc)) (projectId loc)
                ((comp sys)\<lparr>prompt := the (navPrompt loc)\<rparr>))
      else sys\<lparr>comp := (comp sys)\<lparr>projectStatus := Idle, hasInitialized := True\<rparr>\<rparr>)"

text \<open>
  What can happen to a mounted page: the mount effect fires, the user types, the user
  submits, the \<open>n\<close>-th pending request settles. The clock readings are those of the
  code that runs.
\<close>

datatype event =
    Effect status
  | Typing string
  | Submit nat nat
  | Settle nat "jsval result" nat nat

fun is_command :: "event \<Rightarrow> bool" where
  "is_command (Effect seen) = True"
| "is_command ev = False"

fun step :: "deps \<Rightarrow> location \<Rightarrow> system \<Rightarrow> event \<Rightarrow> system" where
  "step d loc sys (Effect seen) =
     (if hasInitialized (comp sys) then sys else initializeProject loc seen sys)"
| "step d loc sys (Typing txt) = sys\<lparr>comp := (comp sys)\<lparr>prompt := txt\<rparr>\<rparr>"
| "step d loc sys (Submit now date) =
     spawn SubmitK False (pending sys) (handleSubmit_begin d now date (comp sys))"
| "step d loc sys (Settle n r now date) =
     (if n < length (pending sys)
      then (case pending sys ! n of
              (rq, k, fl) \<Rightarrow>
                resume d now date k fl r
                  (take n (pending sys) @ drop (Suc n) (pending sys)) (comp sys))
      else sys)"

definition mounted :: system where
  "mounted = \<lparr>comp = initial_state, pending = []\<rparr>"

definition run_events :: "deps \<Rightarrow> location \<Rightarrow> event list \<Rightarrow> system" where
  "run_events d loc evs = foldl (step d loc) mounted evs"

text \<open>Which branch of \<open>initializeProject\<close> a location takes.\<close>

definition fetches :: "location \<Rightarrow> bool" where
  "fetches loc \<longleftrightarrow> truthy_bool (existingProject loc) \<and> truthy_num (projectId loc)"

definition generates :: "location \<Rightarrow> bool" where
  "generates loc \<longleftrightarrow>
     \<not> fetches loc \<and> truthy_str (navPrompt loc) \<and> truthy_num (projectId loc)"

text \<open>
  What holds of a mounted page after any events: the guard \<open>isGenerating\<close> is set
  exactly while one run of \<open>generateCode\<close> is pending; a pending run of
  \<open>generateCode\<close> has left the display status at \<open>loading\<close>, or at \<open>ready\<close>
  once it waits for the record request; a pending fetch has left it away from
  \<open>idle\<close>; and a page with nothing to initialize stays \<open>idle\<close>.
\<close>

definition guard_agrees :: "system \<Rightarrow> bool" where
  "guard_agrees sys \<longleftrightarrow>
     active_generations sys = (if isGenerating (comp sys) then 1 else 0)"

text \<open>
  The same for \<open>handleSubmit\<close> and its guard, the state cell \<open>isLoading\<close>.
\<close>

definition loading_agrees :: "system \<Rightarrow> bool" where
  "loading_agrees sys \<longleftrightarrow>
     active_modifications sys = (if isLoading (comp sys) then 1 else 0)"

text \<open>
  The mount effect is written to run once. \<open>commands evs\<close> counts how often it has
  fired; as long as that is at most once, at most one fetch is pending, and the display
  status is \<open>loading\<close> while it is.
\<close>

definition commands :: "event list \<Rightarrow> nat" where
  "commands evs = length (filter is_command evs)"

definition fetch_inv :: "nat \<Rightarrow> system \<Rightarrow> bool" where
  "fetch_inv n sys \<longleftrightarrow>
     active_fetches sys \<le> n \<and>
     (0 < active_fetches sys \<longrightarrow> projectStatus (comp sys) = Loading)"

fun task_ok :: "location \<Rightarrow> status \<Rightarrow> task \<Rightarrow> bool" where
  "task_ok loc st (rq, FetchK k, fl) = (fetches loc \<and> st \<noteq> Idle)"
| "task_ok loc st (rq, GenK k, fl) =
     (generates loc \<and> st = (if k = AwaitRecord then Ready else Loading))"
| "task_ok loc st (rq, SubmitK k, fl) = True"

definition status_inv :: "location \<Rightarrow> system \<Rightarrow> bool" where
  "status_inv loc sys \<longleftrightarrow>
     guard_agrees sys \<and>
     list_all (task_ok loc (projectStatus (comp sys))) (pending sys) \<and>
     (fetches loc \<or> generates loc \<or> projectStatus (comp sys) = Idle)"

text \<open>Where the function resumes whose pending request an event settles.\<close>

fun settled :: "system \<Rightarrow> event \<Rightarrow> cont option" where
  "settled sys (Settle n r now date) =
     (if n < length (pending sys) then Some (fst (snd (pending sys ! n))) else None)"
| "settled sys ev = None"

text \<open>
  The ways the display status may change at one event, from \<open>old\<close> to \<open>new\<close>,
  whatever the events before it. The last line is wider than \<open>loading\<close> only for
  fetches that overlap.
\<close>

definition transition_ok :: "system \<Rightarrow> event \<Rightarrow> status \<Rightarrow> status \<Rightarrow> bool" where
  "transition_ok sys ev old new \<longleftrightarrow>
     new = old \<or>
     is_command ev \<and> new = Loading \<or>
     (\<exists>k. settled sys ev = Some (GenK k)) \<and> old = Loading \<and> (new = Ready \<or> new = Error) \<or>
     settled sys ev = Some (GenK AwaitRecord) \<and> old = Ready \<and> new = Error \<or>
     settled sys ev = Some (FetchK AwaitProject) \<and> old \<noteq> Idle \<and>
       (new = Ready \<or> new = Error)"

section \<open>Reading a trace\<close>

text \<open>The actions a run has added to the trace.\<close>

definition new_actions :: "chat_state \<Rightarrow> chat_state \<Rightarrow> action list" where
  "new_actions s s' = drop (length (trace s)) (trace s')"

datatype stage =
    CheckExisting
  | Generate
  | Parse
  | PersistStructure
  | WriteFilesStage
  | Package
  | BuildDeploy
  | Record

fun stage_of :: "action \<Rightarrow> stage option" where
  "stage_of (Request (Get (ApiProjects i))) = Some CheckExisting"
| "stage_of (Request (Put (ApiProjects i) b)) = Some Record"
| "stage_of (Request rq) =
     (case endpoint_of rq of
        GenerateFrontend \<Rightarrow> Some Generate
      | WriteFiles \<Rightarrow> Some WriteFilesStage
      | ZipFolder \<Rightarrow> Some Package
      | BuildRun \<Rightarrow> Some BuildDeploy
      | e \<Rightarrow> None)"
| "stage_of (ParseFrontendCode txt) = Some Parse"
| "stage_of (SetValue v) = Some PersistStructure"
| "stage_of (ConsoleError label e) = None"

definition stages :: "action list \<Rightarrow> stage list" where
  "stages as = List.map_filter stage_of as"

definition stage_actions :: "action list \<Rightarrow> action list" where
  "stage_actions as = filter (\<lambda>a. stage_of a \<noteq> None) as"

definition generation_sequence :: "stage list" where
  "generation_sequence =
     [Generate, Parse, PersistStructure, WriteFilesStage, Package, BuildDeploy, Record]"

text \<open>With a project id, the look-up of the project comes first.\<close>

definition lookup :: "int option \<Rightarrow> stage list" where
  "lookup projId = (if truthy_num projId then [CheckExisting] else [])"

definition pipeline :: "int option \<Rightarrow> stage list" where
  "pipeline projId = lookup projId @ generation_sequence"

text \<open>The stages behind a run that waits at a given point.\<close>

fun stages_at :: "int option \<Rightarrow> gen_await \<Rightarrow> stage list" where
  "stages_at projId (AwaitExisting u p) = [CheckExisting]"
| "stages_at projId (AwaitFrontend p) = lookup projId @ [Generate]"
| "stages_at projId (AwaitWrite p) =
     lookup projId @ [Generate, Parse, PersistStructure, WriteFilesStage]"
| "stages_at projId (AwaitZip p) =
     lookup projId @ [Generate, Parse, PersistStructure, WriteFilesStage, Package]"
| "stages_at projId (AwaitBuild p) =
     lookup projId @ [Generate, Parse, PersistStructure, WriteFilesStage, Package, BuildDeploy]"
| "stages_at projId AwaitRecord = lookup projId @ generation_sequence"

text \<open>The project id a suspended run holds, where it still holds one.\<close>

fun holds_id :: "int option \<Rightarrow> gen_await \<Rightarrow> bool" where
  "holds_id projId (AwaitExisting u p) = (p = projId \<and> truthy_num projId)"
| "holds_id projId (AwaitFrontend p) = (p = projId)"
| "holds_id projId (AwaitWrite p) = (p = projId)"
| "holds_id projId (AwaitZip p) = (p = projId)"
| "holds_id projId (AwaitBuild p) = (p = projId)"
| "holds_id projId AwaitRecord = truthy_num projId"

text \<open>
  Whether the call behind an action came back without throwing. A line on the console
  is not a call that can fail.
\<close>

fun returned :: "'a result \<Rightarrow> bool" where
  "returned (Inl e) = False"
| "returned (Inr v) = True"

fun succeeded :: "deps \<Rightarrow> (request \<Rightarrow> jsval result) \<Rightarrow> action \<Rightarrow> bool" where
  "succeeded d env (Request rq) = returned (env rq)"
| "succeeded d env (ParseFrontendCode txt) = returned (parseFrontendCode d txt)"
| "succeeded d env (SetValue v) = True"
| "succeeded d env (ConsoleError label e) = True"

fun is_console_error :: "action \<Rightarrow> bool" where
  "is_console_error (ConsoleError label e) = True"
| "is_console_error a = False"

text \<open>The requests of the modification pipeline.\<close>

definition modification_endpoints :: "endpoint set" where
  "modification_endpoints = {GenerateChanges, ExtractFilesToChange, Modify, WriteFiles}"

fun requested :: "action \<Rightarrow> endpoint option" where
  "requested (Request rq) = Some (endpoint_of rq)"
| "requested a = None"

definition endpoints :: "action list \<Rightarrow> endpoint list" where
  "endpoints as = List.map_filter requested as"

section \<open>The shape of a generation run\<close>

text \<open>
  What holds of a run of \<open>generateCode\<close> that started in \<open>s0\<close>: while it
  waits for a request, every earlier action has succeeded and the actions are exactly
  the stages up to that request; once it is over, the actions are a prefix of the
  pipeline, followed by one line on the console if and only if something was thrown.
\<close>

definition complete_run :: "int option \<Rightarrow> stage list \<Rightarrow> bool" where
  "complete_run projId sts \<longleftrightarrow>
     sts = [CheckExisting] \<or> sts = lookup projId @ butlast generation_sequence \<or>
     sts = pipeline projId"

definition gen_waiting ::
  "deps \<Rightarrow> (request \<Rightarrow> jsval result) \<Rightarrow> int option \<Rightarrow> chat_state \<Rightarrow> chat_state \<Rightarrow> request \<Rightarrow> gen_await \<Rightarrow> bool" where
  "gen_waiting d env projId s0 s rq k \<longleftrightarrow>
     isGenerating s \<and> holds_id projId k \<and>
     projectStatus s = (if k = AwaitRecord then Ready else Loading) \<and>
     (\<exists>acts. trace s = trace s0 @ acts @ [Request rq] \<and>
             list_all (succeeded d env) acts \<and>
             map stage_of (acts @ [Request rq]) = map Some (stages_at projId k))"

definition gen_done ::
  "deps \<Rightarrow> (request \<Rightarrow> jsval result) \<Rightarrow> int option \<Rightarrow> chat_state \<Rightarrow> chat_state \<Rightarrow> bool" where
  "gen_done d env projId s0 s \<longleftrightarrow>
     \<not> isGenerating s \<and> \<not> loadingCode s \<and>
     (\<exists>acts sts.
        map stage_of acts = map Some sts \<and> prefix sts (pipeline projId) \<and>
        list_all (succeeded d env) (butlast acts) \<and>
        (trace s = trace s0 @ acts \<and> list_all (succeeded d env) acts \<and>
           projectStatus s = Ready \<and> complete_run projId sts
         \<or> (\<exists>e. trace s = trace s0 @ acts @ [ConsoleError ''Error generating code:'' e] \<and>
                 projectStatus s = Error \<and> error s = ''Failed to generate code'')))"

fun gen_shape ::
  "deps \<Rightarrow> (request \<Rightarrow> jsval result) \<Rightarrow> int option \<Rightarrow> chat_state
     \<Rightarrow> chat_state \<times> (request \<times> gen_await) option \<Rightarrow> bool" where
  "gen_shape d env projId s0 (s, None) = gen_done d env projId s0 s"
| "gen_shape d env projId s0 (s, Some (rq, k)) = gen_waiting d env projId s0 s rq k"

text \<open>
  What holds of the write request in a run that started in \<open>s0\<close>: once it has been
  answered, the package request has been sent, unless the run still waits for the
  answer to arrive.
\<close>

definition write_followed ::
  "(request \<Rightarrow> jsval result) \<Rightarrow> chat_state \<Rightarrow> chat_state \<times> (request \<times> gen_await) option \<Rightarrow> bool" where
  "write_followed env s0 c \<longleftrightarrow>
     length (trace s0) \<le> length (trace (fst c)) \<and>
     (\<forall>wr. Request wr \<in> set (new_actions s0 (fst c)) \<and> endpoint_of wr = WriteFiles \<and>
            returned (env wr) \<longrightarrow>
            Request (Get ZipFolder) \<in> set (new_actions s0 (fst c)) \<or>
            (\<exists>i. snd c = Some (wr, AwaitWrite i)))"

text \<open>
  What a run of \<open>handleSubmit\<close> that started in \<open>s0\<close> leaves alone, and the
  only services it talks to.
\<close>

definition submit_frame :: "chat_state \<Rightarrow> chat_state \<times> (request \<times> submit_await) option \<Rightarrow> bool" where
  "submit_frame s0 c \<longleftrightarrow>
     previewUrl (fst c) = previewUrl s0 \<and> projectStatus (fst c) = projectStatus s0 \<and>
     isGenerating (fst c) = isGenerating s0 \<and>
     (\<exists>new. trace (fst c) = trace s0 @ new \<and> set (endpoints new) \<subseteq> modification_endpoints)"

section \<open>A worked scenario\<close>

text \<open>
  Project 42 and a todo app: the answers of the services when all goes well, and a
  parser that knows the one model output of the scenario. Of the three functions that
  are parameters, the scenario gives the values at the arguments that occur in it: the
  parser and \<open>JSON.parse\<close> throw at every other argument, and
  \<open>JSON.stringify\<close> is called with the structure of the todo app or with the empty
  object only.
\<close>

definition model_answer :: "jsval \<Rightarrow> jsval" where
  "model_answer txt = JObj [(''content'', JArr [JObj [(''type'', JStr ''text''), (''text'', txt)]])]"

definition file_item :: "string \<Rightarrow> string \<Rightarrow> jsval" where
  "file_item p c = JObj [(''path'', JStr p), (''content'', JStr c)]"

definition project_record :: "int \<Rightarrow> jsval \<Rightarrow> jsval" where
  "project_record i url = JObj [(''id'', JNum i), (''deploymentUrl'', url), (''status'', JStr ''ready'')]"

definition todo_raw :: jsval where
  "todo_raw = JStr ''<structure>index.html app.js</structure><files>...</files>''"

definition todo_structure :: jsval where
  "todo_structure = JObj [(''index.html'', JStr ''entry page''), (''app.js'', JStr ''todo list'')]"

definition todo_files :: jsval where
  "todo_files = JArr [file_item ''index.html'' ''<html></html>'', file_item ''app.js'' ''render()'']"

definition rewrite_raw :: jsval where
  \<open>rewrite_raw = JStr ''[{"path":"src/App.tsx"}]''\<close>

text \<open>\<open>JSON.stringify(value, null, 2)\<close> of the structure above.\<close>

definition todo_structure_json :: string where
  \<open>todo_structure_json =
     ''{\<newline>  "index.html": "entry page",\<newline>  "app.js": "todo list"\<newline>}''\<close>

definition scenario_deps :: deps where
  "scenario_deps =
     \<lparr>parseFrontendCode =
        (\<lambda>txt. if txt = todo_raw
               then Inr (JObj [(''structure'', todo_structure), (''codeFiles'', todo_files)])
               else Inl (Thrown ''no structure section'')),
      JSON_parse =
        (\<lambda>txt. if txt = rewrite_raw
               then Inr (JArr [JObj [(''path'', JStr ''src/App.tsx'')]])
               else Inl SyntaxError),
      JSON_stringify =
        (\<lambda>v. if v = todo_structure then todo_structure_json
             else if v = JObj [] then ''{}''
             else ''null'')\<rparr>"

fun services :: "request \<Rightarrow> jsval result" where
  "services (Get (ApiProjects i)) = Inr (JObj [(''id'', JNum i), (''status'', JStr ''pending'')])"
| "services (Post GenerateFrontend b) = Inr (model_answer todo_raw)"
| "services (Post WriteFiles b) = Inr (JObj [(''success'', JBool True)])"
| "services (Get ZipFolder) =
     Inr (JObj [(''data'', JObj [(''publicUrl'', JStr ''https://zip.example/42.zip'')])])"
| "services (Post BuildRun b) = Inr (JObj [(''previewUrl'', JStr ''https://preview.example/42'')])"
| "services (Put (ApiProjects i) b) = Inr b"
| "services (Post GenerateChanges b) = Inr (model_answer (JStr ''change src/App.tsx''))"
| "services (Post ExtractFilesToChange b) = Inr (JObj [(''files'', JArr [file_item ''src/App.tsx'' ''old''])])"
| "services (Post Modify b) = Inr (model_answer rewrite_raw)"
| "services rq = Inl (AxiosError ''Request failed with status code 404'')"

definition recorded_services :: "int \<Rightarrow> jsval \<Rightarrow> request \<Rightarrow> jsval result" where
  "recorded_services i url = services(Get (ApiProjects i) := Inr (project_record i url))"

definition network_error :: js_error where
  "network_error = AxiosError ''Network Error''"

text \<open>The same services with one request rejected.\<close>

definition generate_request :: request where
  "generate_request = Post GenerateFrontend (JObj [(''prompt'', JStr ''build a todo app'')])"

definition write_request :: request where
  "write_request = Post WriteFiles (JObj [(''files'', todo_files)])"

definition record_request :: request where
  "record_request =
     Put (ApiProjects 42)
       (JObj [(''deploymentUrl'', JStr ''https://preview.example/42''), (''status'', JStr ''ready'')])"

definition rejecting :: "request \<Rightarrow> request \<Rightarrow> jsval result" where
  "rejecting rq = services(rq := Inl network_error)"

text \<open>
  The same services with a write service that answers the request and reports in its
  answer that one of the two files could not be written.
\<close>

definition partial_write_report :: jsval where
  "partial_write_report =
     JObj [(''success'', JBool False), (''written'', JArr [JStr ''index.html'']),
           (''failed'', JArr [JStr ''app.js''])]"

definition partial_write :: "request \<Rightarrow> jsval result" where
  "partial_write = services(write_request := Inr partial_write_report)"

text \<open>What a run for project 42 does when every service answers.\<close>

definition todo_actions :: "action list" where
  "todo_actions =
     [Request (Get (ApiProjects 42)),
      Request generate_request,
      ParseFrontendCode todo_raw,
      SetValue todo_structure,
      Request write_request,
      Request (Get ZipFolder),
      Request (Post BuildRun (JObj [(''zipUrl'', JStr ''https://zip.example/42.zip'')])),
      Request record_request]"

text \<open>The page showing the deployed project 42, with a change typed in.\<close>

definition showing_42 :: chat_state where
  "showing_42 =
     initial_state
       \<lparr>previewUrl := JStr ''https://preview.example/42'', projectStatus := Ready,
        hasInitialized := True, currentProjectId := Some 42,
        ctxValue := todo_structure, prompt := ''add a dark mode toggle''\<rparr>"

text \<open>
  A prompt of white space only: a no-break space, a space, an ideographic space
  (U+3000), a tab and a line feed.
\<close>

definition blank_prompt :: string where
  "blank_prompt = [CHR 0xC2, CHR 0xA0, CHR 0x20, CHR 0xE3, CHR 0x80, CHR 0x80, CHR 0x09, CHR 0x0A]"

text \<open>
  The page opened for the new project 42, and the events of a generation in which
  every service answers up to the build.
\<close>

definition new_project :: location where
  "new_project =
     \<lparr>navPrompt = Some ''build a todo app'', projectId = Some 42, existingProject = None\<rparr>"

definition built_events :: "event list" where
  "built_events =
     [Effect Idle,
      Settle 0 (services (Get (ApiProjects 42))) 0 0,
      Settle 0 (services generate_request) 0 0,
      Settle 0 (services write_request) 0 0,
      Settle 0 (services (Get ZipFolder)) 0 0,
      Settle 0 (services (Post BuildRun (JObj [(''zipUrl'', JStr ''https://zip.example/42.zip'')]))) 0 0]"

text \<open>The page opened for the existing project 42.\<close>

definition existing_project :: location where
  "existing_project = \<lparr>navPrompt = None, projectId = Some 42, existingProject = Some True\<rparr>"

text \<open>
  What a change request does on that page when every service answers. The rewrite
  stage returns one item, which has a path and no content.
\<close>

definition change_actions :: "action list" where
  "change_actions =
     [Request (Post GenerateChanges
                 (JObj [(''prompt'', JStr (analysisPrompt scenario_deps todo_structure
                                             ''add a dark mode toggle''))])),
      Request (Post ExtractFilesToChange
                 (JObj [(''pwd'', JStr pwd), (''analysisResult'', JStr ''change src/App.tsx'')])),
      Request (Post Modify
                 (JObj [(''files'', JArr [file_item ''src/App.tsx'' ''old'']),
                        (''prompt'', JStr ''add a dark mode toggle'')])),
      Request (Post WriteFiles
                 (JObj [(''baseDir'', JStr pwd),
                        (''files'', JArr [JObj [(''path'', JStr ''src/App.tsx''),
                                                (''content'', JUndefined)]])]))]"

section \<open>Runs of generateCode\<close>

lemma prefix_stages_at: "holds_id projId k \<Longrightarrow> prefix (stages_at projId k) (pipeline projId)"
  by (cases k) (simp_all add: pipeline_def lookup_def generation_sequence_def)

lemma gen_catch_shape:
  assumes "trace s = trace s0 @ acts" and "map stage_of acts = map Some sts"
    and "prefix sts (pipeline projId)" and "list_all (succeeded d env) (butlast acts)"
  shows "gen_shape d env projId s0 (gen_catch e s)"
  unfolding gen_catch_def gen_finally_def finished_def gen_shape.simps gen_done_def
  using assms by (auto simp: emit_def)

lemma gen_waiting_catch:
  assumes "gen_waiting d env projId s0 s rq k"
  shows "gen_shape d env projId s0 (gen_catch e s)"
proof -
  from assms obtain acts where a: "trace s = trace s0 @ (acts @ [Request rq])"
    "list_all (succeeded d env) acts"
    "map stage_of (acts @ [Request rq]) = map Some (stages_at projId k)"
    and h: "holds_id projId k"
    by (auto simp: gen_waiting_def)
  show ?thesis
    by (rule gen_catch_shape [OF a(1) a(3) prefix_stages_at [OF h]]) (simp add: a(2))
qed

lemma gen_waiting_await:
  assumes w: "gen_waiting d env projId s0 s rq k"
    and ok: "env rq = Inr v"
    and tr: "trace s' = trace s @ mid" and mid: "list_all (succeeded d env) mid"
    and g: "isGenerating s'" and h: "holds_id projId k'"
    and st: "projectStatus s' = (if k' = AwaitRecord then Ready else Loading)"
    and sts: "map Some (stages_at projId k') =
                map Some (stages_at projId k) @ map stage_of mid @ [stage_of (Request rq')]"
  shows "gen_shape d env projId s0 (await rq' k' s')"
proof -
  from w obtain acts where a: "trace s = trace s0 @ acts @ [Request rq]"
    "list_all (succeeded d env) acts"
    "map stage_of (acts @ [Request rq]) = map Some (stages_at projId k)"
    by (auto simp: gen_waiting_def)
  let ?acts = "acts @ [Request rq] @ mid"
  have "trace (emit (Request rq') s') = trace s0 @ ?acts @ [Request rq']"
    by (simp add: emit_def tr a(1))
  moreover have "list_all (succeeded d env) ?acts"
    using a(2) mid ok by simp
  moreover have "map stage_of (?acts @ [Request rq']) = map Some (stages_at projId k')"
    using a(3) sts by simp
  ultimately show ?thesis
    using g h st unfolding await_def gen_shape.simps gen_waiting_def
    by (auto simp: emit_def)
qed

lemma gen_waiting_catch_later:
  assumes w: "gen_waiting d env projId s0 s rq k"
    and ok: "env rq = Inr v"
    and tr: "trace s' = trace s @ mid @ [a]" and mid: "list_all (succeeded d env) mid"
    and sts: "map stage_of (mid @ [a]) = map Some extra"
    and pre: "prefix (stages_at projId k @ extra) (pipeline projId)"
  shows "gen_shape d env projId s0 (gen_catch e s')"
proof -
  from w obtain acts where a: "trace s = trace s0 @ acts @ [Request rq]"
    "list_all (succeeded d env) acts"
    "map stage_of (acts @ [Request rq]) = map Some (stages_at projId k)"
    by (auto simp: gen_waiting_def)
  have 1: "trace s' = trace s0 @ ((acts @ [Request rq] @ mid) @ [a])"
    by (simp add: tr a(1))
  have 2: "map stage_of ((acts @ [Request rq] @ mid) @ [a]) = map Some (stages_at projId k @ extra)"
    using a(3) sts by simp
  have 3: "butlast ((acts @ [Request rq] @ mid) @ [a]) = acts @ [Request rq] @ mid"
    by (rule butlast_snoc)
  show ?thesis
    by (rule gen_catch_shape [OF 1 2 pre]) (simp only: 3, simp add: a(2) mid ok)
qed

lemma gen_waiting_ready:
  assumes w: "gen_waiting d env projId s0 s rq k"
    and ok: "env rq = Inr v"
    and tr: "trace s' = trace s" and st: "projectStatus s' = Ready"
    and fin: "complete_run projId (stages_at projId k)"
  shows "gen_shape d env projId s0 (gen_finally s')"
proof -
  from w obtain acts where a: "trace s = trace s0 @ acts @ [Request rq]"
    "list_all (succeeded d env) acts"
    "map stage_of (acts @ [Request rq]) = map Some (stages_at projId k)"
    and h: "holds_id projId k"
    by (auto simp: gen_waiting_def)
  have "list_all (succeeded d env) (acts @ [Request rq])"
    using a(2) ok by simp
  then show ?thesis
    unfolding gen_finally_def finished_def gen_shape.simps gen_done_def
    using a(1,2,3) prefix_stages_at [OF h] tr st fin
    by (intro conjI exI [of _ "acts @ [Request rq]"] exI [of _ "stages_at projId k"]) simp_all
qed

lemma generateCode_resume_shape:
  assumes w: "gen_waiting d env projId s0 s rq k"
  shows "gen_shape d env projId s0 (generateCode_resume d k (env rq) s)"
proof (cases k)
  case (AwaitExisting u p)
  then have k: "k = AwaitExisting u projId" and t: "truthy_num projId"
    using w by (auto simp: gen_waiting_def)
  have st: "projectStatus s = Loading" "isGenerating s"
    using w k by (auto simp: gen_waiting_def)
  show ?thesis
  proof (cases "env rq")
    case (Inl e)
    then show ?thesis using gen_waiting_catch [OF w] k by simp
  next
    case (Inr ex)
    show ?thesis
    proof (cases "get_prop ex ''deploymentUrl''")
      case (Inl e)
      then show ?thesis using gen_waiting_catch [OF w] k Inr by simp
    next
      case url: (Inr url)
      show ?thesis
      proof (cases "truthy url")
        case True
        have "gen_shape d env projId s0
                (gen_finally (s\<lparr>previewUrl := url, projectStatus := Ready,
                                 loadingCode := False, isGenerating := False\<rparr>))"
          by (rule gen_waiting_ready [OF w Inr]) (simp_all add: k complete_run_def)
        then show ?thesis using k Inr url True by simp
      next
        case False
        have "gen_shape d env projId s0
                (await (Post GenerateFrontend (JObj [(''prompt'', JStr u)])) (AwaitFrontend projId) s)"
          by (rule gen_waiting_await [OF w Inr, where mid = "[]"])
             (simp_all add: st k t lookup_def)
        then show ?thesis using k Inr url False by (simp add: post_generateFrontend_def)
      qed
    qed
  qed
next
  case (AwaitFrontend p)
  then have k: "k = AwaitFrontend projId"
    using w by (auto simp: gen_waiting_def)
  have st: "projectStatus s = Loading" "isGenerating s"
    using w k by (auto simp: gen_waiting_def)
  show ?thesis
  proof (cases "env rq")
    case (Inl e)
    then show ?thesis using gen_waiting_catch [OF w] k by simp
  next
    case (Inr fr)
    show ?thesis
    proof (cases "content0_text fr")
      case (Inl e)
      then show ?thesis using gen_waiting_catch [OF w] k Inr by simp
    next
      case raw: (Inr raw)
      have parse_failed: "gen_shape d env projId s0 (gen_catch e (emit (ParseFrontendCode raw) s))"
        for e
        by (rule gen_waiting_catch_later [OF w Inr, where mid = "[]" and a = "ParseFrontendCode raw" and extra = "[Parse]"])
           (simp_all add: emit_def k pipeline_def generation_sequence_def)
      show ?thesis
      proof (cases "parseFrontendCode d raw")
        case (Inl e)
        then show ?thesis using parse_failed k Inr raw by simp
      next
        case pf: (Inr pf)
        show ?thesis
        proof (cases "get_prop pf ''structure''")
          case (Inl e)
          then show ?thesis using parse_failed k Inr raw pf by simp
        next
          case str: (Inr str)
          let ?s2 = "(emit (SetValue str) (emit (ParseFrontendCode raw) s))\<lparr>ctxValue := str\<rparr>"
          have no_files: "gen_shape d env projId s0 (gen_catch e ?s2)" for e
            by (rule gen_waiting_catch_later
                  [OF w Inr, where mid = "[ParseFrontendCode raw]" and a = "SetValue str"
                     and extra = "[Parse, PersistStructure]"])
               (simp_all add: emit_def k pf pipeline_def generation_sequence_def)
          have files: "gen_shape d env projId s0
                         (await (Post WriteFiles (JObj [(''files'', cf)])) (AwaitWrite projId) ?s2)"
            for cf
            by (rule gen_waiting_await
                  [OF w Inr, where mid = "[ParseFrontendCode raw, SetValue str]"])
               (simp_all add: emit_def k pf st)
          show ?thesis using k Inr raw pf str no_files files
            by (simp add: Let_def split: sum.splits)
        qed
      qed
    qed
  qed
next
  case (AwaitWrite p)
  then have k: "k = AwaitWrite projId"
    using w by (auto simp: gen_waiting_def)
  have st: "projectStatus s = Loading" "isGenerating s"
    using w k by (auto simp: gen_waiting_def)
  show ?thesis
  proof (cases "env rq")
    case (Inl e)
    then show ?thesis using gen_waiting_catch [OF w] k by simp
  next
    case (Inr v)
    have "gen_shape d env projId s0 (await (Get ZipFolder) (AwaitZip projId) s)"
      by (rule gen_waiting_await [OF w Inr, where mid = "[]"]) (simp_all add: st k)
    then show ?thesis using k Inr by simp
  qed
next
  case (AwaitZip p)
  then have k: "k = AwaitZip projId"
    using w by (auto simp: gen_waiting_def)
  have st: "projectStatus s = Loading" "isGenerating s"
    using w k by (auto simp: gen_waiting_def)
  show ?thesis
  proof (cases "env rq")
    case (Inl e)
    then show ?thesis using gen_waiting_catch [OF w] k by simp
  next
    case (Inr v)
    have "gen_shape d env projId s0
            (await (Post BuildRun (JObj [(''zipUrl'', u)])) (AwaitBuild projId) s)" for u
      by (rule gen_waiting_await [OF w Inr, where mid = "[]"]) (simp_all add: st k)
    then show ?thesis using k Inr gen_waiting_catch [OF w]
      by (simp split: sum.splits)
  qed
next
  case (AwaitBuild p)
  then have k: "k = AwaitBuild projId"
    using w by (auto simp: gen_waiting_def)
  have st: "projectStatus s = Loading" "isGenerating s"
    using w k by (auto simp: gen_waiting_def)
  show ?thesis
  proof (cases "env rq")
    case (Inl e)
    then show ?thesis using gen_waiting_catch [OF w] k by simp
  next
    case (Inr v)
    have a: "gen_shape d env projId s0
            (await (Put (ApiProjects i) b) AwaitRecord (s\<lparr>previewUrl := u, projectStatus := Ready\<rparr>))"
      if "truthy_num projId" for u i b
      by (rule gen_waiting_await [OF w Inr, where mid = "[]"])
         (simp_all add: st k that generation_sequence_def)
    have b: "gen_shape d env projId s0
               (gen_finally (s\<lparr>previewUrl := u, projectStatus := Ready\<rparr>))" for u
      by (rule gen_waiting_ready [OF w Inr])
         (simp_all add: k complete_run_def generation_sequence_def)
    show ?thesis using k Inr gen_waiting_catch [OF w] a b
      by (simp split: sum.splits add: Let_def)
  qed
next
  case AwaitRecord
  show ?thesis
  proof (cases "env rq")
    case (Inl e)
    then show ?thesis using gen_waiting_catch [OF w] AwaitRecord by simp
  next
    case (Inr v)
    have "gen_shape d env projId s0 (gen_finally s)"
      by (rule gen_waiting_ready [OF w Inr]) (use w AwaitRecord in \<open>simp_all add: gen_waiting_def complete_run_def pipeline_def\<close>)
    then show ?thesis using AwaitRecord Inr by simp
  qed
qed

lemma run_generate_invariant:
  assumes "I (s, p)"
    and "\<And>s rq k. I (s, Some (rq, k)) \<Longrightarrow> I (generateCode_resume d k (env rq) s)"
  shows "I (run_generate d env (s, p), None)"
  using assms
proof (induction d env "(s, p)" arbitrary: s p rule: run_generate.induct)
  case (1 d env s)
  then show ?case by simp
next
  case (2 d env s rq k)
  note IH = 2(1) and start = 2(2) and pres = 2(3)
  obtain s' p' where sp: "generateCode_resume d k (env rq) s = (s', p')"
    by (cases "generateCode_resume d k (env rq) s")
  have "I (s', p')" using pres[OF start] sp by simp
  then have "I (run_generate d env (s', p'), None)"
    using IH[OF sp] pres by blast
  then show ?case using sp by simp
qed

lemma generateCode_begin_shape:
  assumes "\<not> isGenerating s"
  shows "gen_shape d env projId s (generateCode_begin u projId s)"
  using assms
  by (simp add: generateCode_begin_def post_generateFrontend_def await_def emit_def
                gen_waiting_def lookup_def Let_def)

lemma generateCode_done:
  assumes "\<not> isGenerating s"
  shows "gen_done d env projId s (generateCode d env u projId s)"
proof -
  obtain s1 p1 where b: "generateCode_begin u projId s = (s1, p1)"
    by (cases "generateCode_begin u projId s")
  have "gen_shape d env projId s (s1, p1)"
    using generateCode_begin_shape [OF assms, of d env projId u] b by simp
  then have "gen_shape d env projId s (run_generate d env (s1, p1), None)"
    by (rule run_generate_invariant) (simp add: generateCode_resume_shape)
  then show ?thesis by (simp add: generateCode_def b)
qed

lemma generateCode_absorbed: "isGenerating s \<Longrightarrow> generateCode d env u projId s = s"
  by (simp add: generateCode_def generateCode_begin_def finished_def)

lemma new_actions_append: "trace s' = trace s @ xs \<Longrightarrow> new_actions s s' = xs"
  by (simp add: new_actions_def)

lemma new_actions_same [simp]: "new_actions s s = []"
  by (simp add: new_actions_def)

lemma stages_of_staged:
  "map stage_of acts = map Some sts \<Longrightarrow>
     stages acts = sts \<and> stage_actions acts = acts \<and> \<not> list_ex is_console_error acts"
proof (induction acts arbitrary: sts)
  case Nil
  then show ?case by (simp add: stages_def stage_actions_def List.map_filter_simps)
next
  case (Cons a acts)
  then obtain st sts' where sts: "sts = st # sts'" "stage_of a = Some st"
    "map stage_of acts = map Some sts'"
    by (cases sts) auto
  from Cons.IH [OF sts(3)] sts(1,2) show ?case
    by (cases a) (auto simp: stages_def stage_actions_def List.map_filter_simps)
qed

lemma stages_append_console:
  "stages (acts @ [ConsoleError l e]) = stages acts"
  "stage_actions (acts @ [ConsoleError l e]) = stage_actions acts"
  by (simp_all add: stages_def stage_actions_def List.map_filter_def)

lemma generateCode_outcome:
  fixes d env u projId s
  assumes "\<not> isGenerating s"
  defines "s' \<equiv> generateCode d env u projId s"
  defines "new \<equiv> new_actions s s'"
  obtains (ready) "stage_actions new = new" "list_all (succeeded d env) new"
      "projectStatus s' = Ready" "complete_run projId (stages new)"
      "prefix (stages new) (pipeline projId)" "\<not> list_ex is_console_error new"
      "\<not> isGenerating s'" "\<not> loadingCode s'"
    | (failed) e where "new = stage_actions new @ [ConsoleError ''Error generating code:'' e]"
      "list_all (succeeded d env) (butlast (stage_actions new))"
      "projectStatus s' = Error" "error s' = ''Failed to generate code''"
      "prefix (stages new) (pipeline projId)" "\<not> list_ex is_console_error (stage_actions new)"
      "\<not> isGenerating s'" "\<not> loadingCode s'"
proof -
  from generateCode_done [OF assms(1), of d env projId u]
  obtain acts sts where g: "\<not> isGenerating s'" "\<not> loadingCode s'"
    and a: "map stage_of acts = map Some sts" "prefix sts (pipeline projId)"
      "list_all (succeeded d env) (butlast acts)"
    and c: "trace s' = trace s @ acts \<and> list_all (succeeded d env) acts \<and>
              projectStatus s' = Ready \<and> complete_run projId sts
            \<or> (\<exists>e. trace s' = trace s @ acts @ [ConsoleError ''Error generating code:'' e] \<and>
                    projectStatus s' = Error \<and> error s' = ''Failed to generate code'')"
    unfolding gen_done_def s'_def by blast
  note st = stages_of_staged [OF a(1)]
  from c show thesis
  proof
    assume r: "trace s' = trace s @ acts \<and> list_all (succeeded d env) acts \<and>
              projectStatus s' = Ready \<and> complete_run projId sts"
    then have "new = acts" by (simp add: new_def new_actions_append)
    then show thesis using r st a g by (intro ready) simp_all
  next
    assume "\<exists>e. trace s' = trace s @ acts @ [ConsoleError ''Error generating code:'' e] \<and>
                    projectStatus s' = Error \<and> error s' = ''Failed to generate code''"
    then obtain e where f: "trace s' = trace s @ acts @ [ConsoleError ''Error generating code:'' e]"
      "projectStatus s' = Error" "error s' = ''Failed to generate code''"
      by blast
    then have "new = acts @ [ConsoleError ''Error generating code:'' e]"
      by (simp add: new_def new_actions_append)
    then show thesis using f st a g
      by (intro failed [of e]) (simp_all add: stages_append_console)
  qed
qed

lemma generateCode_resume_write:
  assumes "write_followed env s0 (s, Some (rq, k))"
  shows "write_followed env s0 (generateCode_resume d k (env rq) s)"
proof -
  have len: "length (trace s0) \<le> length (trace s)"
    and old: "\<forall>wr. Request wr \<in> set (drop (length (trace s0)) (trace s)) \<and>
                endpoint_of wr = WriteFiles \<and> returned (env wr) \<longrightarrow>
                Request (Get ZipFolder) \<in> set (drop (length (trace s0)) (trace s)) \<or>
                (\<exists>i. k = AwaitWrite i \<and> wr = rq)"
    using assms by (auto simp: write_followed_def new_actions_def)
  show ?thesis
  proof (cases k)
    case (AwaitExisting u i)
    then show ?thesis
      using len old
      by (auto simp: write_followed_def new_actions_def gen_catch_def gen_finally_def
                     finished_def await_def emit_def post_generateFrontend_def
               split: sum.splits)
  next
    case (AwaitFrontend i)
    then show ?thesis
      using len old
      by (auto simp: write_followed_def new_actions_def gen_catch_def gen_finally_def
                     finished_def await_def emit_def Let_def
               split: sum.splits)
  next
    case (AwaitWrite i)
    then show ?thesis
      using len old
      by (cases "env rq")
         (auto simp: write_followed_def new_actions_def gen_catch_def gen_finally_def
                     finished_def await_def emit_def)
  next
    case (AwaitZip i)
    then show ?thesis
      using len old
      by (auto simp: write_followed_def new_actions_def gen_catch_def gen_finally_def
                     finished_def await_def emit_def
               split: sum.splits)
  next
    case (AwaitBuild i)
    then show ?thesis
      using len old
      by (auto simp: write_followed_def new_actions_def gen_catch_def gen_finally_def
                     finished_def await_def emit_def Let_def
               split: sum.splits)
  next
    case AwaitRecord
    then show ?thesis
      using len old
      by (auto simp: write_followed_def new_actions_def gen_catch_def gen_finally_def
                     finished_def await_def emit_def
               split: sum.splits)
  qed
qed

lemma generateCode_write_followed:
  "write_followed env s (generateCode d env u projId s, None)"
proof (cases "isGenerating s")
  case True
  then show ?thesis
    by (simp add: generateCode_absorbed write_followed_def)
next
  case False
  obtain s1 p1 where b: "generateCode_begin u projId s = (s1, p1)"
    by (cases "generateCode_begin u projId s")
  have "write_followed env s (s1, p1)"
    using b False
    by (auto simp: generateCode_begin_def post_generateFrontend_def await_def emit_def
                   write_followed_def new_actions_def Let_def
             split: if_splits)
  then have "write_followed env s (run_generate d env (s1, p1), None)"
    by (rule run_generate_invariant) (rule generateCode_resume_write)
  then show ?thesis by (simp add: generateCode_def b)
qed


lemma prefix_ending_write:
  assumes "prefix (xs @ [WriteFilesStage]) (pipeline projId)"
  shows "Package \<notin> set xs \<and> BuildDeploy \<notin> set xs"
proof -
  from assms obtain zs where "pipeline projId = xs @ WriteFilesStage # zs"
    by (auto simp: prefix_def)
  then show ?thesis
    by (auto simp: pipeline_def lookup_def generation_sequence_def Cons_eq_append_conv
             split: if_splits)
qed

lemma stages_append: "stages (xs @ ys) = stages xs @ stages ys"
  by (simp add: stages_def List.map_filter_def)

lemma stage_of_write: "endpoint_of rq = WriteFiles \<Longrightarrow> stage_of (Request rq) = Some WriteFilesStage"
  by (cases rq) auto

subsection \<open>The scenario, evaluated\<close>

lemmas run_defs = generateCode_def generateCode_begin_def post_generateFrontend_def await_def
  finished_def gen_finally_def gen_catch_def emit_def initial_state_def
  recorded_services_def project_record_def scenario_deps_def model_answer_def
  content0_text_def todo_raw_def todo_files_def todo_structure_def file_item_def
  network_error_def rejecting_def generate_request_def write_request_def record_request_def


lemma todo_run_generate_rejected:
  "generateCode scenario_deps (rejecting generate_request) ''build a todo app'' (Some 42)
     initial_state =
     initial_state\<lparr>error := ''Failed to generate code'', projectStatus := Error,
                   trace := take 2 todo_actions @
                              [ConsoleError ''Error generating code:'' network_error]\<rparr>"
  by (simp add: run_defs todo_actions_def)

lemma todo_run_write_rejected:
  "generateCode scenario_deps (rejecting write_request) ''build a todo app'' (Some 42)
     initial_state =
     initial_state\<lparr>ctxValue := todo_structure, error := ''Failed to generate code'',
                   projectStatus := Error,
                   trace := take 5 todo_actions @
                              [ConsoleError ''Error generating code:'' network_error]\<rparr>"
  by (simp add: run_defs todo_actions_def)

lemma todo_run_partial_write:
  "generateCode scenario_deps partial_write ''build a todo app'' (Some 42) initial_state =
     initial_state\<lparr>ctxValue := todo_structure, previewUrl := JStr ''https://preview.example/42'',
                   projectStatus := Ready, trace := todo_actions\<rparr>"
  by (simp add: run_defs todo_actions_def partial_write_def)

lemma todo_run_record_rejected:
  "generateCode scenario_deps (rejecting record_request) ''build a todo app'' (Some 42)
     initial_state =
     initial_state\<lparr>ctxValue := todo_structure, previewUrl := JStr ''https://preview.example/42'',
                   error := ''Failed to generate code'', projectStatus := Error,
                   trace := todo_actions @
                              [ConsoleError ''Error generating code:'' network_error]\<rparr>"
  by (simp add: run_defs todo_actions_def)

lemma new_actions_initial: "new_actions initial_state s = trace s"
  by (simp add: new_actions_def initial_state_def)

lemma stages_todo_actions: "stages todo_actions = pipeline (Some 42)"
  by (simp add: stages_def List.map_filter_simps todo_actions_def pipeline_def lookup_def
                generation_sequence_def generate_request_def write_request_def record_request_def)

lemma stage_actions_todo_actions: "stage_actions todo_actions = todo_actions"
  by (simp add: stage_actions_def todo_actions_def generate_request_def write_request_def
                record_request_def)

lemma stage_member: "a \<in> set as \<Longrightarrow> stage_of a = Some st \<Longrightarrow> st \<in> set (stages as)"
  by (force simp: stages_def List.map_filter_def)

lemma write_rejected_aborts:
  fixes d env u projId s
  defines "s' \<equiv> generateCode d env u projId s"
  defines "new \<equiv> new_actions s s'"
  assumes "Request rq \<in> set new" and "endpoint_of rq = WriteFiles" and "env rq = Inl e"
  shows "projectStatus s' = Error \<and> Package \<notin> set (stages new) \<and> BuildDeploy \<notin> set (stages new)"
proof (cases "isGenerating s")
  case True
  then have "new = []"
    by (simp add: new_def s'_def generateCode_absorbed)
  then show ?thesis using assms(3) by simp
next
  case False
  have bad: "\<not> succeeded d env (Request rq)"
    using assms(5) by simp
  from False show ?thesis
  proof (cases rule: generateCode_outcome [where d = d and env = env and u = u and projId = projId])
    case ready
    then show ?thesis using assms(3) bad by (auto simp: list_all_iff new_def s'_def)
  next
    case (failed e')
    let ?new = "new_actions s (generateCode d env u projId s)"
    let ?sa = "stage_actions ?new"
    have "set ?new = set (?sa @ [ConsoleError ''Error generating code:'' e'])"
      using failed(1) by (rule arg_cong)
    then have mem: "Request rq \<in> set ?sa"
      using assms(3) unfolding new_def s'_def by auto
    then have "?sa \<noteq> []" by auto
    then have split: "?sa = butlast ?sa @ [last ?sa]" by simp
    have "Request rq \<notin> set (butlast ?sa)"
      using failed(2) bad by (auto simp: list_all_iff)
    moreover have "set ?sa = set (butlast ?sa) \<union> {last ?sa}"
      using arg_cong [OF split, of set] by simp
    ultimately have "last ?sa = Request rq"
      using mem by auto
    with split have sa: "?sa = butlast ?sa @ [Request rq]" by simp
    have "stages ?new = stages (?sa @ [ConsoleError ''Error generating code:'' e'])"
      using failed(1) by (rule arg_cong)
    also have "\<dots> = stages ?sa"
      by (simp add: stages_append_console)
    also have "\<dots> = stages (butlast ?sa @ [Request rq])"
      using sa by (rule arg_cong)
    also have "\<dots> = stages (butlast ?sa) @ stages [Request rq]"
      by (rule stages_append)
    also have "stages [Request rq] = [WriteFilesStage]"
      by (simp add: stages_def List.map_filter_simps stage_of_write [OF assms(4)])
    finally have eq: "stages ?new = stages (butlast ?sa) @ [WriteFilesStage]" .
    have "prefix (stages (butlast ?sa) @ [WriteFilesStage]) (pipeline projId)"
      using failed(5) eq by simp
    from prefix_ending_write [OF this] eq failed(3) show ?thesis
      unfolding new_def s'_def by simp
  qed
qed

section \<open>The claims about generateCode\<close>

text \<open>
  C1. \<open>generateCode\<close> has one call site: the mount effect calls
  \<open>generateCode(navPrompt, projectId)\<close> on a page that was opened with a prompt and a
  project id, both truthy, and not for an existing project. When the look-up of that
  project answers with a record that carries a deployment URL, such a call, unless a
  run is in flight, puts the URL into the preview, reaches \<open>ready\<close>, releases the
  guard and has issued the look-up as its only request: the generation, write, package
  and build stages are not invoked. On the mounted page this is the whole story: the
  mount effect fires, the look-up settles, and the page shows the recorded URL with
  nothing pending.
\<close>

theorem generateCode_short_circuit:
  fixes d env loc u p s
  defines "s' \<equiv> generateCode d env u (Some p) s"
  assumes "generates loc" and "navPrompt loc = Some u" and "projectId loc = Some p"
    and "get_prop existing ''deploymentUrl'' = Inr url" and "truthy url"
  shows "(\<not> isGenerating s \<and> env (Get (ApiProjects p)) = Inr existing \<longrightarrow>
            previewUrl s' = url \<and> projectStatus s' = Ready \<and>
            new_actions s s' = [Request (Get (ApiProjects p))] \<and>
            stages (new_actions s s') = [CheckExisting] \<and>
            error s' = [] \<and> \<not> isGenerating s' \<and> \<not> loadingCode s') \<and>
         run_events d loc [Effect seen, Settle 0 (Inr existing) now date] =
           \<lparr>comp = initial_state
                     \<lparr>prompt := u, previewUrl := url, projectStatus := Ready,
                      hasInitialized := True, trace := [Request (Get (ApiProjects p))]\<rparr>,
            pending = []\<rparr>"
proof -
  have id: "p \<noteq> 0" and nf: "\<not> fetches loc"
    using assms(2,4) by (simp_all add: generates_def)
  have call: "\<not> isGenerating s \<and> env (Get (ApiProjects p)) = Inr existing \<longrightarrow>
            previewUrl s' = url \<and> projectStatus s' = Ready \<and>
            new_actions s s' = [Request (Get (ApiProjects p))] \<and>
            stages (new_actions s s') = [CheckExisting] \<and>
            error s' = [] \<and> \<not> isGenerating s' \<and> \<not> loadingCode s'"
    unfolding s'_def using id assms(5,6)
    by (simp add: generateCode_def generateCode_begin_def await_def finished_def gen_finally_def
                  emit_def new_actions_def stages_def List.map_filter_simps)
  have page: "run_events d loc [Effect seen, Settle 0 (Inr existing) now date] =
           \<lparr>comp = initial_state
                     \<lparr>prompt := u, previewUrl := url, projectStatus := Ready,
                      hasInitialized := True, trace := [Request (Get (ApiProjects p))]\<rparr>,
            pending = []\<rparr>"
    using id nf assms(2,3,4,5,6)
    by (simp add: run_events_def mounted_def initializeProject_def fetches_def generates_def
                  generateCode_begin_def await_def finished_def gen_finally_def emit_def
                  initial_state_def)
  from call page show ?thesis by blast
qed

theorem generateCode_short_circuit_witness:
  "generates new_project \<and> navPrompt new_project = Some ''build a todo app'' \<and>
   projectId new_project = Some 42 \<and>
   get_prop (project_record 42 (JStr ''https://preview.example/42'')) ''deploymentUrl'' =
     Inr (JStr ''https://preview.example/42'') \<and>
   \<not> isGenerating initial_state \<and>
   recorded_services 42 (JStr ''https://preview.example/42'') (Get (ApiProjects 42)) =
     Inr (project_record 42 (JStr ''https://preview.example/42'')) \<and>
   previewUrl (generateCode scenario_deps (recorded_services 42 (JStr ''https://preview.example/42''))
                 ''build a todo app'' (Some 42) initial_state) = JStr ''https://preview.example/42'' \<and>
   projectStatus (generateCode scenario_deps (recorded_services 42 (JStr ''https://preview.example/42''))
                 ''build a todo app'' (Some 42) initial_state) = Ready \<and>
   new_actions initial_state
     (generateCode scenario_deps (recorded_services 42 (JStr ''https://preview.example/42''))
        ''build a todo app'' (Some 42) initial_state) = [Request (Get (ApiProjects 42))] \<and>
   run_events scenario_deps new_project
     [Effect Idle, Settle 0 (Inr (project_record 42 (JStr ''https://preview.example/42''))) 0 0] =
     \<lparr>comp = initial_state
               \<lparr>prompt := ''build a todo app'', previewUrl := JStr ''https://preview.example/42'',
                projectStatus := Ready, hasInitialized := True,
                trace := [Request (Get (ApiProjects 42))]\<rparr>,
      pending = []\<rparr>"
proof -
  have 1: "generates new_project"
    by (simp add: generates_def fetches_def new_project_def)
  have 2: "navPrompt new_project = Some ''build a todo app''" "projectId new_project = Some 42"
    by (simp_all add: new_project_def)
  have 3: "get_prop (project_record 42 (JStr ''https://preview.example/42'')) ''deploymentUrl'' =
             Inr (JStr ''https://preview.example/42'')"
    by (simp add: project_record_def)
  have 4: "\<not> isGenerating initial_state"
    by (simp add: initial_state_def)
  have 5: "recorded_services 42 (JStr ''https://preview.example/42'') (Get (ApiProjects 42)) =
             Inr (project_record 42 (JStr ''https://preview.example/42''))"
    by (simp add: recorded_services_def)
  have 6: "truthy (JStr ''https://preview.example/42'')"
    by simp
  from generateCode_short_circuit
         [where loc = new_project and u = "''build a todo app''" and p = 42
            and existing = "project_record 42 (JStr ''https://preview.example/42'')"
            and url = "JStr ''https://preview.example/42''"
            and s = initial_state and d = scenario_deps
            and env = "recorded_services 42 (JStr ''https://preview.example/42'')"
            and seen = Idle and now = 0 and date = 0, OF 1 2 3 6]
  show ?thesis using 1 2 3 4 5 by blast
qed

text \<open>
  C3, as amended. When the look-up finds no deployment URL, every stage through
  build/deploy succeeds with a preview URL, and the request that records the result is
  rejected, the preview keeps the URL that was built, but the run ends as a failure the
  user sees: the status is \<open>error\<close> and the message is \<open>Failed to generate code\<close>;
  the rejection is also written to the console, as the last action of the run.
\<close>

theorem record_failure_surfaces:
  assumes "\<not> isGenerating s" and "p \<noteq> 0"
    and "env (Get (ApiProjects p)) = Inr existing"
    and "get_prop existing ''deploymentUrl'' = Inr old" and "\<not> truthy old"
    and "env (Post GenerateFrontend (JObj [(''prompt'', JStr userPrompt)])) = Inr frontendres"
    and "content0_text frontendres = Inr raw" and "parseFrontendCode d raw = Inr parsed"
    and "get_prop parsed ''structure'' = Inr struct"
    and "get_prop parsed ''codeFiles'' = Inr codeFiles"
    and "env (Post WriteFiles (JObj [(''files'', codeFiles)])) = Inr written"
    and "env (Get ZipFolder) = Inr zipped"
    and "get_prop zipped ''data'' = Inr dat" and "get_prop dat ''publicUrl'' = Inr publicUrl"
    and "env (Post BuildRun (JObj [(''zipUrl'', publicUrl)])) = Inr built"
    and "get_prop built ''previewUrl'' = Inr url" and "truthy url"
    and "env (Put (ApiProjects p) (JObj [(''deploymentUrl'', url), (''status'', JStr ''ready'')]))
           = Inl e"
  shows "previewUrl (generateCode d env userPrompt (Some p) s) = url \<and>
         projectStatus (generateCode d env userPrompt (Some p) s) = Error \<and>
         error (generateCode d env userPrompt (Some p) s) = ''Failed to generate code'' \<and>
         stages (new_actions s (generateCode d env userPrompt (Some p) s)) = pipeline (Some p) \<and>
         last (new_actions s (generateCode d env userPrompt (Some p) s)) =
           ConsoleError ''Error generating code:'' e"
  using assms
  by (simp add: generateCode_def generateCode_begin_def post_generateFrontend_def await_def
                finished_def gen_finally_def gen_catch_def emit_def new_actions_def
                stages_def List.map_filter_simps pipeline_def lookup_def generation_sequence_def)

theorem record_failure_surfaces_witness:
  "previewUrl (generateCode scenario_deps (rejecting record_request) ''build a todo app''
                 (Some 42) initial_state) = JStr ''https://preview.example/42'' \<and>
   projectStatus (generateCode scenario_deps (rejecting record_request) ''build a todo app''
                 (Some 42) initial_state) = Error \<and>
   error (generateCode scenario_deps (rejecting record_request) ''build a todo app''
                 (Some 42) initial_state) = ''Failed to generate code'' \<and>
   last (new_actions initial_state
           (generateCode scenario_deps (rejecting record_request) ''build a todo app''
              (Some 42) initial_state)) = ConsoleError ''Error generating code:'' network_error"
  using record_failure_surfaces
          [where s = initial_state and p = 42 and d = scenario_deps
             and env = "rejecting record_request" and userPrompt = "''build a todo app''"
             and existing = "JObj [(''id'', JNum 42), (''status'', JStr ''pending'')]"
             and old = JUndefined and frontendres = "model_answer todo_raw" and raw = todo_raw
             and parsed = "JObj [(''structure'', todo_structure), (''codeFiles'', todo_files)]"
             and struct = todo_structure and codeFiles = todo_files
             and written = "JObj [(''success'', JBool True)]"
             and zipped = "JObj [(''data'', JObj [(''publicUrl'', JStr ''https://zip.example/42.zip'')])]"
             and dat = "JObj [(''publicUrl'', JStr ''https://zip.example/42.zip'')]"
             and publicUrl = "JStr ''https://zip.example/42.zip''"
             and built = "JObj [(''previewUrl'', JStr ''https://preview.example/42'')]"
             and url = "JStr ''https://preview.example/42''" and e = network_error]
  by (simp add: initial_state_def rejecting_def record_request_def scenario_deps_def
                model_answer_def content0_text_def todo_raw_def todo_files_def)

text \<open>
  C3 as stated fails: with every service answering and only the record request
  rejected, the run does not report success. It ends in \<open>error\<close> with the message
  shown to the user, although all seven stages ran and the preview URL is set.
\<close>

theorem record_failure_counterexample:
  "projectStatus (generateCode scenario_deps (rejecting record_request) ''build a todo app''
                    (Some 42) initial_state) = Error \<and>
   error (generateCode scenario_deps (rejecting record_request) ''build a todo app''
            (Some 42) initial_state) = ''Failed to generate code'' \<and>
   previewUrl (generateCode scenario_deps (rejecting record_request) ''build a todo app''
                 (Some 42) initial_state) = JStr ''https://preview.example/42'' \<and>
   stages (new_actions initial_state
             (generateCode scenario_deps (rejecting record_request) ''build a todo app''
                (Some 42) initial_state)) = pipeline (Some 42)"
  by (simp add: todo_run_record_rejected new_actions_initial stages_append stages_todo_actions)
     (simp add: stages_def List.map_filter_simps)

text \<open>
  C6, as amended. The write stage of the generation pipeline fails only when its
  request is rejected: if a run has sent a request to the write-files service and that
  request is rejected, the run ends in the status \<open>error\<close> and has invoked
  neither the package stage nor the build/deploy stage. The answer of the write
  service is never read: if the request is answered, whatever the answer says, the run
  goes on and sends the package request.
\<close>

theorem write_failure_aborts:
  fixes d env u projId s
  defines "s' \<equiv> generateCode d env u projId s"
  defines "new \<equiv> new_actions s s'"
  shows "(Request rq \<in> set new \<and> endpoint_of rq = WriteFiles \<and> env rq = Inl e \<longrightarrow>
            projectStatus s' = Error \<and> Package \<notin> set (stages new) \<and>
            BuildDeploy \<notin> set (stages new)) \<and>
         (Request rq \<in> set new \<and> endpoint_of rq = WriteFiles \<and> env rq = Inr written \<longrightarrow>
            Request (Get ZipFolder) \<in> set new \<and> Package \<in> set (stages new))"
proof -
  have 1: "Request rq \<in> set new \<and> endpoint_of rq = WriteFiles \<and> env rq = Inl e \<longrightarrow>
            projectStatus s' = Error \<and> Package \<notin> set (stages new) \<and>
            BuildDeploy \<notin> set (stages new)"
    unfolding new_def s'_def
    using write_rejected_aborts
            [where rq = rq and s = s and d = d and env = env and u = u and projId = projId
               and e = e]
    by blast
  have 2: "Request rq \<in> set new \<and> endpoint_of rq = WriteFiles \<and> env rq = Inr written \<longrightarrow>
            Request (Get ZipFolder) \<in> set new"
    unfolding new_def s'_def
    using generateCode_write_followed [of env s d u projId]
    by (auto simp: write_followed_def)
  have 3: "Request (Get ZipFolder) \<in> set new \<longrightarrow> Package \<in> set (stages new)"
    using stage_member [of "Request (Get ZipFolder)" new Package] by simp
  from 1 2 3 show ?thesis by blast
qed

theorem write_failure_aborts_witness:
  "Request write_request \<in> set (new_actions initial_state
      (generateCode scenario_deps (rejecting write_request) ''build a todo app'' (Some 42)
         initial_state)) \<and>
   endpoint_of write_request = WriteFiles \<and>
   rejecting write_request write_request = Inl network_error \<and>
   projectStatus (generateCode scenario_deps (rejecting write_request) ''build a todo app''
                    (Some 42) initial_state) = Error \<and>
   Package \<notin> set (stages (new_actions initial_state
      (generateCode scenario_deps (rejecting write_request) ''build a todo app'' (Some 42)
         initial_state))) \<and>
   BuildDeploy \<notin> set (stages (new_actions initial_state
      (generateCode scenario_deps (rejecting write_request) ''build a todo app'' (Some 42)
         initial_state))) \<and>
   Request write_request \<in> set (new_actions initial_state
      (generateCode scenario_deps partial_write ''build a todo app'' (Some 42) initial_state)) \<and>
   partial_write write_request = Inr partial_write_report \<and>
   Package \<in> set (stages (new_actions initial_state
      (generateCode scenario_deps partial_write ''build a todo app'' (Some 42) initial_state)))"
proof -
  have 1: "Request write_request \<in> set (new_actions initial_state
      (generateCode scenario_deps (rejecting write_request) ''build a todo app'' (Some 42)
         initial_state))"
    by (simp add: todo_run_write_rejected new_actions_initial todo_actions_def)
  have 2: "endpoint_of write_request = WriteFiles"
    by (simp add: write_request_def)
  have 3: "rejecting write_request write_request = Inl network_error"
    by (simp add: rejecting_def)
  have 4: "Request write_request \<in> set (new_actions initial_state
      (generateCode scenario_deps partial_write ''build a todo app'' (Some 42) initial_state))"
    by (simp add: todo_run_partial_write new_actions_initial todo_actions_def)
  have 5: "partial_write write_request = Inr partial_write_report"
    by (simp add: partial_write_def)
  show ?thesis
    using write_failure_aborts
            [where rq = write_request and env = "rejecting write_request" and e = network_error
               and d = scenario_deps and u = "''build a todo app''" and projId = "Some 42"
               and s = initial_state]
          write_failure_aborts
            [where rq = write_request and env = partial_write and written = partial_write_report
               and d = scenario_deps and u = "''build a todo app''" and projId = "Some 42"
               and s = initial_state]
          1 2 3 4 5
    by blast
qed

text \<open>
  C6 as stated fails: the write service answers the request and reports that one of
  the two files could not be written; the run packages, builds and records all the
  same and ends \<open>ready\<close>, with no error message.
\<close>

theorem partial_write_counterexample:
  "partial_write write_request = Inr partial_write_report \<and>
   get_prop partial_write_report ''success'' = Inr (JBool False) \<and>
   projectStatus (generateCode scenario_deps partial_write ''build a todo app'' (Some 42)
                    initial_state) = Ready \<and>
   error (generateCode scenario_deps partial_write ''build a todo app'' (Some 42)
            initial_state) = [] \<and>
   stages (new_actions initial_state
             (generateCode scenario_deps partial_write ''build a todo app'' (Some 42)
                initial_state)) =
     [CheckExisting, Generate, Parse, PersistStructure, WriteFilesStage, Package, BuildDeploy,
      Record]"
  by (simp add: todo_run_partial_write new_actions_initial stages_todo_actions)
     (simp add: partial_write_def partial_write_report_def initial_state_def pipeline_def
                lookup_def generation_sequence_def)



text \<open>
  C8, as amended. Whenever an invoked stage of a run of \<open>generateCode\<close> fails, the
  failure is caught; and whenever a failure is caught, the run ends with the status
  \<open>error\<close>, the guard released and the one message \<open>Failed to generate code\<close>,
  which is the same for every stage. The line on the console, which carries the thrown
  error, is the last action of the run: no stage is invoked after the failure, and
  every stage before the failing one has succeeded.
\<close>

theorem generation_failure_generic:
  fixes d env u projId s
  defines "s' \<equiv> generateCode d env u projId s"
  defines "new \<equiv> new_actions s s'"
  shows "(\<not> list_all (succeeded d env) new \<longrightarrow> list_ex is_console_error new) \<and>
         (list_ex is_console_error new \<longrightarrow>
            projectStatus s' = Error \<and> error s' = ''Failed to generate code'' \<and>
            \<not> isGenerating s' \<and>
            (\<exists>e. new = stage_actions new @ [ConsoleError ''Error generating code:'' e]) \<and>
            list_all (succeeded d env) (butlast (stage_actions new)))"
proof (cases "isGenerating s")
  case True
  then have "new = []"
    by (simp add: new_def s'_def generateCode_absorbed)
  then show ?thesis by simp
next
  case False
  from False show ?thesis
  proof (cases rule: generateCode_outcome [where d = d and env = env and u = u and projId = projId])
    case ready
    then show ?thesis unfolding new_def s'_def by simp
  next
    case (failed e)
    have "list_ex is_console_error (stage_actions (new_actions s (generateCode d env u projId s))
            @ [ConsoleError ''Error generating code:'' e])"
      by simp
    then have "list_ex is_console_error (new_actions s (generateCode d env u projId s))"
      using failed(1) by simp
    then show ?thesis unfolding new_def s'_def using failed by blast
  qed
qed

theorem generation_failure_generic_witness:
  "\<not> list_all (succeeded scenario_deps (rejecting write_request))
       (new_actions initial_state
          (generateCode scenario_deps (rejecting write_request) ''build a todo app'' (Some 42)
             initial_state)) \<and>
   list_ex is_console_error
       (new_actions initial_state
          (generateCode scenario_deps (rejecting write_request) ''build a todo app'' (Some 42)
             initial_state)) \<and>
   projectStatus (generateCode scenario_deps (rejecting write_request) ''build a todo app''
                    (Some 42) initial_state) = Error \<and>
   error (generateCode scenario_deps (rejecting write_request) ''build a todo app''
            (Some 42) initial_state) = ''Failed to generate code''"
proof -
  have "\<not> list_all (succeeded scenario_deps (rejecting write_request))
       (new_actions initial_state
          (generateCode scenario_deps (rejecting write_request) ''build a todo app'' (Some 42)
             initial_state))"
    by (simp add: todo_run_write_rejected new_actions_initial)
       (simp add: todo_actions_def rejecting_def write_request_def generate_request_def)
  then show ?thesis
    using generation_failure_generic
            [where d = scenario_deps and env = "rejecting write_request"
               and u = "''build a todo app''" and projId = "Some 42" and s = initial_state]
    by simp
qed

text \<open>
  C8 as stated fails where it asks for a typed failure that identifies the stage: a run
  whose generate request is rejected and a run whose write request is rejected stop at
  different stages, yet leave the same message, status and preview for the user.
\<close>

theorem generation_failure_untyped_counterexample:
  "stages (new_actions initial_state
      (generateCode scenario_deps (rejecting generate_request) ''build a todo app'' (Some 42)
         initial_state)) = [CheckExisting, Generate] \<and>
   stages (new_actions initial_state
      (generateCode scenario_deps (rejecting write_request) ''build a todo app'' (Some 42)
         initial_state)) = [CheckExisting, Generate, Parse, PersistStructure, WriteFilesStage] \<and>
   error (generateCode scenario_deps (rejecting generate_request) ''build a todo app'' (Some 42)
            initial_state) =
   error (generateCode scenario_deps (rejecting write_request) ''build a todo app'' (Some 42)
            initial_state) \<and>
   projectStatus (generateCode scenario_deps (rejecting generate_request) ''build a todo app''
                    (Some 42) initial_state) =
   projectStatus (generateCode scenario_deps (rejecting write_request) ''build a todo app''
                    (Some 42) initial_state) \<and>
   previewUrl (generateCode scenario_deps (rejecting generate_request) ''build a todo app''
                 (Some 42) initial_state) =
   previewUrl (generateCode scenario_deps (rejecting write_request) ''build a todo app''
                 (Some 42) initial_state)"
  by (simp add: todo_run_generate_rejected todo_run_write_rejected new_actions_initial)
     (simp add: stages_def List.map_filter_simps todo_actions_def generate_request_def
                write_request_def)

section \<open>Runs of handleSubmit\<close>

text \<open>
  What \<open>trim\<close> leaves of a prompt is empty exactly when the prompt consists of
  white space only.
\<close>

lemma space_length_all:
  "list_all (\<lambda>w. w \<noteq> [] \<and> (\<forall>r. space_length white_space (w @ r) = length w)) white_space"
  by (simp add: white_space_def space_length_def)

lemma strip_Nil: "strip ws [] = []"
  by (simp add: strip.simps)

lemma strip_front:
  assumes "w \<in> set white_space"
  shows "strip white_space (w @ r) = strip white_space r"
proof -
  have w: "w \<noteq> []" "space_length white_space (w @ r) = length w"
    using assms space_length_all by (auto simp: list_all_iff)
  then have "strip white_space (w @ r) = strip white_space (drop (length w) (w @ r))"
    by (simp add: strip.simps [of white_space "w @ r"])
  then show ?thesis by simp
qed

lemma strip_white_space:
  "set cs \<subseteq> set white_space \<Longrightarrow> strip white_space (concat cs) = []"
  by (induction cs) (simp_all add: strip_Nil strip_front)

lemma trim_white_space:
  "set cs \<subseteq> set white_space \<Longrightarrow> trim (concat cs) = []"
  by (simp add: trim_def trimStart_def trimEnd_def strip_white_space strip_Nil)

lemma space_length_take:
  "0 < space_length ws s \<Longrightarrow> take (space_length ws s) s \<in> set ws"
  by (auto simp: space_length_def split: if_splits)

lemma strip_split: "\<exists>cs. set cs \<subseteq> set ws \<and> s = concat cs @ strip ws s"
proof (induction ws s rule: strip.induct)
  case (1 ws s)
  show ?case
  proof (cases "s = [] \<or> space_length ws s = 0")
    case True
    then have "strip ws s = s" by (simp add: strip.simps [of ws s])
    then have "set [] \<subseteq> set ws \<and> s = concat [] @ strip ws s" by simp
    then show ?thesis by blast
  next
    case False
    let ?n = "space_length ws s"
    from 1 [OF False] obtain cs where cs: "set cs \<subseteq> set ws"
      "drop ?n s = concat cs @ strip ws (drop ?n s)" by blast
    have st: "strip ws s = strip ws (drop ?n s)"
      using False by (simp add: strip.simps [of ws s])
    have hd: "take ?n s \<in> set ws"
      using False by (simp add: space_length_take)
    have "s = take ?n s @ drop ?n s" by simp
    also have "\<dots> = concat (take ?n s # cs) @ strip ws s"
      using cs(2) st by simp
    finally have "set (take ?n s # cs) \<subseteq> set ws \<and> s = concat (take ?n s # cs) @ strip ws s"
      using cs(1) hd by simp
    then show ?thesis by blast
  qed
qed

lemma trim_empty:
  "trim s = [] \<longleftrightarrow> (\<exists>cs. set cs \<subseteq> set white_space \<and> s = concat cs)"
proof
  assume "trim s = []"
  then have e: "strip (map rev white_space) (rev (strip white_space s)) = []"
    by (simp add: trim_def trimStart_def trimEnd_def)
  obtain cs1 where cs1: "set cs1 \<subseteq> set white_space" "s = concat cs1 @ strip white_space s"
    using strip_split [of white_space s] by blast
  obtain cs2 where cs2: "set cs2 \<subseteq> set (map rev white_space)"
    "rev (strip white_space s) = concat cs2"
    using strip_split [of "map rev white_space" "rev (strip white_space s)"] e by auto
  have "strip white_space s = rev (concat cs2)"
    using cs2(2) by (simp add: rev_swap)
  then have t: "strip white_space s = concat (map rev (rev cs2))"
    by (simp add: rev_concat)
  have "set (map rev (rev cs2)) \<subseteq> set white_space"
    using cs2(1) by auto
  then have "set (cs1 @ map rev (rev cs2)) \<subseteq> set white_space"
    using cs1(1) by simp
  moreover have "s = concat (cs1 @ map rev (rev cs2))"
    using cs1(2) t by simp
  ultimately show "\<exists>cs. set cs \<subseteq> set white_space \<and> s = concat cs" by blast
next
  assume "\<exists>cs. set cs \<subseteq> set white_space \<and> s = concat cs"
  then show "trim s = []" by (auto simp: trim_white_space)
qed

lemma trim_change: "trim ''add a dark mode toggle'' = ''add a dark mode toggle''"
  by (simp add: trim_def trimStart_def trimEnd_def strip.simps space_length_def white_space_def)

lemma trim_todo: "trim ''build a todo app'' = ''build a todo app''"
  by (simp add: trim_def trimStart_def trimEnd_def strip.simps space_length_def white_space_def)

lemma run_submit_invariant:
  assumes "I (s, p)"
    and "\<And>s rq k. I (s, Some (rq, k)) \<Longrightarrow> I (handleSubmit_resume d now date k (env rq) s)"
  shows "I (run_submit d env now date (s, p), None)"
  using assms
proof (induction d env now date "(s, p)" arbitrary: s p rule: run_submit.induct)
  case (1 d env now date s)
  then show ?case by simp
next
  case (2 d env now date s rq k)
  note IH = 2(1) and start = 2(2) and pres = 2(3)
  obtain s' p' where sp: "handleSubmit_resume d now date k (env rq) s = (s', p')"
    by (cases "handleSubmit_resume d now date k (env rq) s")
  have "I (s', p')" using pres[OF start] sp by simp
  then have "I (run_submit d env now date (s', p'), None)"
    using IH[OF sp] pres by blast
  then show ?case using sp by simp
qed

lemma endpoints_append: "endpoints (xs @ ys) = endpoints xs @ endpoints ys"
  by (simp add: endpoints_def List.map_filter_def)

lemma endpoints_single [simp]:
  "endpoints [Request rq] = [endpoint_of rq]" "endpoints [ConsoleError l e] = []"
  "endpoints [] = []"
  by (simp_all add: endpoints_def List.map_filter_simps)

lemma submit_frame_catch:
  "submit_frame s0 (s, p) \<Longrightarrow> submit_frame s0 (submit_catch now date e s)"
  unfolding submit_frame_def submit_catch_def submit_finally_def finished_def emit_def
  by (auto simp: endpoints_append)

lemma submit_frame_await:
  "submit_frame s0 (s, p) \<Longrightarrow> endpoint_of rq \<in> modification_endpoints \<Longrightarrow>
     submit_frame s0 (await rq k s)"
  unfolding submit_frame_def await_def emit_def
  by (auto simp: endpoints_append)

lemma handleSubmit_resume_frame:
  assumes "submit_frame s0 (s, Some (rq, k))"
  shows "submit_frame s0 (handleSubmit_resume d now date k r s)"
proof (cases k)
  case (AwaitAnalysis cp)
  then show ?thesis
    using submit_frame_catch [OF assms] submit_frame_await [OF assms]
    by (simp add: modification_endpoints_def split: sum.splits)
next
  case (AwaitExtract cp)
  then show ?thesis
    using submit_frame_catch [OF assms] submit_frame_await [OF assms]
    by (simp add: modification_endpoints_def split: sum.splits)
next
  case AwaitModify
  then show ?thesis
    using submit_frame_catch [OF assms] submit_frame_await [OF assms]
    by (simp add: modification_endpoints_def split: sum.splits)
next
  case AwaitWriteChanges
  then show ?thesis
    using submit_frame_catch [OF assms] assms
    by (auto simp: submit_frame_def submit_finally_def finished_def split: sum.splits)
qed

lemma handleSubmit_begin_frame: "submit_frame s (handleSubmit_begin d now date s)"
  by (auto simp: handleSubmit_begin_def submit_frame_def finished_def await_def emit_def Let_def
                 modification_endpoints_def)

lemma handleSubmit_frame: "submit_frame s (handleSubmit d env now date now' date' s, None)"
proof -
  obtain s1 p1 where b: "handleSubmit_begin d now date s = (s1, p1)"
    by (cases "handleSubmit_begin d now date s")
  have "submit_frame s (s1, p1)"
    using handleSubmit_begin_frame [of s d now date] b by simp
  then have "submit_frame s (run_submit d env now' date' (s1, p1), None)"
    by (rule run_submit_invariant) (simp add: handleSubmit_resume_frame)
  then show ?thesis by (simp add: handleSubmit_def b)
qed

lemma get_prop_field: "v \<noteq> JNull \<Longrightarrow> v \<noteq> JUndefined \<Longrightarrow> get_prop v name = Inr (field v name)"
  by (cases v) simp_all

lemma get_prop_nullish: "v = JNull \<or> v = JUndefined \<Longrightarrow> get_prop v name = Inl TypeError"
  by auto

lemma pick_path_content_object:
  "item \<noteq> JNull \<Longrightarrow> item \<noteq> JUndefined \<Longrightarrow> pick_path_content item = Inr (path_and_content item)"
  by (simp add: pick_path_content_def path_and_content_def get_prop_field)

lemma map_items_objects:
  "JNull \<notin> set items \<Longrightarrow> JUndefined \<notin> set items \<Longrightarrow>
     map_items items = Inr (map path_and_content items)"
  by (induction items) (auto simp: pick_path_content_object)

lemma map_items_nullish:
  "JNull \<in> set items \<or> JUndefined \<in> set items \<Longrightarrow> map_items items = Inl TypeError"
proof (induction items)
  case Nil
  then show ?case by simp
next
  case (Cons item items)
  show ?case
  proof (cases "item = JNull \<or> item = JUndefined")
    case True
    then show ?thesis by (auto simp: pick_path_content_def)
  next
    case False
    then have "map_items items = Inl TypeError" using Cons by auto
    then show ?thesis using False by (simp add: pick_path_content_object)
  qed
qed

lemma map_path_content_not_array: "\<not> is_array v \<Longrightarrow> map_path_content v = Inl TypeError"
  by (cases v) simp_all

lemma previewUrl_submit_catch [simp]: "previewUrl (fst (submit_catch now date e s)) = previewUrl s"
  by (simp add: submit_catch_def submit_finally_def finished_def emit_def)

lemma previewUrl_await [simp]: "previewUrl (fst (await rq k s)) = previewUrl s"
  by (simp add: await_def emit_def)

lemmas submit_defs = handleSubmit_def handleSubmit_begin_def await_def finished_def
  submit_finally_def submit_catch_def emit_def showing_42_def initial_state_def
  scenario_deps_def model_answer_def content0_text_def rewrite_raw_def file_item_def trim_change
  pick_path_content_def Let_def

lemma change_run:
  "handleSubmit scenario_deps services 1000 1001 2000 2001 showing_42 =
     showing_42\<lparr>prompt := [], 
       messages := [\<lparr>msg_id = 1000, content = ''add a dark mode toggle'', msg_type = User,
                      timestamp = 1001\<rparr>,
                    \<lparr>msg_id = 2001, content = ''Changes applied successfully!'',
                      msg_type = Assistant, timestamp = 2001\<rparr>],
       trace := change_actions\<rparr>"
  by (simp add: submit_defs change_actions_def)

lemma endpoints_change_actions:
  "set (endpoints change_actions) = modification_endpoints"
  by (auto simp: endpoints_def List.map_filter_simps change_actions_def modification_endpoints_def)

section \<open>The claims about handleSubmit\<close>

text \<open>
  C2, as amended. When the answer of the rewrite stage arrives, its text goes through
  \<open>JSON.parse\<close> and every item is reduced to its path and content. The step fails,
  through the one failure path of \<open>handleSubmit\<close> and without a request to the
  write service, only if the text is not JSON, the parsed value is not an array, or an
  item is \<open>null\<close>. An item that lacks a path or a content does not fail the step: it
  is submitted to the write service with the missing field \<open>undefined\<close>. The preview
  URL is unchanged in every case.
\<close>

theorem rewrite_items_not_validated:
  fixes d now date updatedFile s
  assumes "content0_text updatedFile = Inr raw"
  defines "after \<equiv> handleSubmit_resume d now date AwaitModify (Inr updatedFile) s"
  shows "(\<forall>items. JSON_parse d raw = Inr (JArr items) \<and> JNull \<notin> set items \<and>
                  JUndefined \<notin> set items \<longrightarrow>
            after = await (Post WriteFiles
                            (JObj [(''baseDir'', JStr pwd),
                                   (''files'', JArr (map path_and_content items))]))
                     AwaitWriteChanges s) \<and>
         (\<forall>items. JSON_parse d raw = Inr (JArr items) \<and>
                  (JNull \<in> set items \<or> JUndefined \<in> set items) \<longrightarrow>
            after = submit_catch now date TypeError s) \<and>
         (\<forall>v. JSON_parse d raw = Inr v \<and> \<not> is_array v \<longrightarrow>
            after = submit_catch now date TypeError s) \<and>
         (\<forall>e. JSON_parse d raw = Inl e \<longrightarrow> after = submit_catch now date e s) \<and>
         previewUrl (fst after) = previewUrl s"
  using assms(1) unfolding after_def
  by (auto simp: map_items_objects map_items_nullish map_path_content_not_array
           split: sum.splits jsval.splits)

theorem rewrite_items_not_validated_witness:
  "content0_text (model_answer rewrite_raw) = Inr rewrite_raw \<and>
   JSON_parse scenario_deps rewrite_raw = Inr (JArr [JObj [(''path'', JStr ''src/App.tsx'')]]) \<and>
   handleSubmit_resume scenario_deps 2000 2001 AwaitModify (Inr (model_answer rewrite_raw))
       showing_42 =
     await (Post WriteFiles
              (JObj [(''baseDir'', JStr pwd),
                     (''files'', JArr [JObj [(''path'', JStr ''src/App.tsx''),
                                             (''content'', JUndefined)]])]))
       AwaitWriteChanges showing_42 \<and>
   JSON_parse scenario_deps (JStr ''not json'') = Inl SyntaxError \<and>
   handleSubmit_resume scenario_deps 2000 2001 AwaitModify
       (Inr (model_answer (JStr ''not json''))) showing_42 =
     submit_catch 2000 2001 SyntaxError showing_42 \<and>
   handleSubmit_resume (scenario_deps\<lparr>JSON_parse := \<lambda>v. Inr (JArr [JNull])\<rparr>) 2000 2001
       AwaitModify (Inr (model_answer rewrite_raw)) showing_42 =
     submit_catch 2000 2001 TypeError showing_42 \<and>
   handleSubmit_resume (scenario_deps\<lparr>JSON_parse := \<lambda>v. Inr (JObj [])\<rparr>) 2000 2001
       AwaitModify (Inr (model_answer rewrite_raw)) showing_42 =
     submit_catch 2000 2001 TypeError showing_42"
proof -
  have 1: "content0_text (model_answer rewrite_raw) = Inr rewrite_raw"
    by (simp add: content0_text_def model_answer_def)
  have 2: "JSON_parse scenario_deps rewrite_raw = Inr (JArr [JObj [(''path'', JStr ''src/App.tsx'')]])"
    by (simp add: scenario_deps_def)
  have 3: "content0_text (model_answer (JStr ''not json'')) = Inr (JStr ''not json'')"
    by (simp add: content0_text_def model_answer_def)
  have 4: "JSON_parse scenario_deps (JStr ''not json'') = Inl SyntaxError"
    by (simp add: scenario_deps_def rewrite_raw_def)
  note a = rewrite_items_not_validated
             [OF 1, where d = scenario_deps and now = 2000 and date = 2001 and s = showing_42]
  note b = rewrite_items_not_validated
             [OF 3, where d = scenario_deps and now = 2000 and date = 2001 and s = showing_42]
  note c = rewrite_items_not_validated
             [OF 1, where d = "scenario_deps\<lparr>JSON_parse := \<lambda>v. Inr (JArr [JNull])\<rparr>"
                and now = 2000 and date = 2001 and s = showing_42]
  note d = rewrite_items_not_validated
             [OF 1, where d = "scenario_deps\<lparr>JSON_parse := \<lambda>v. Inr (JObj [])\<rparr>"
                and now = 2000 and date = 2001 and s = showing_42]
  have "handleSubmit_resume scenario_deps 2000 2001 AwaitModify (Inr (model_answer rewrite_raw))
            showing_42 =
          await (Post WriteFiles
                   (JObj [(''baseDir'', JStr pwd),
                          (''files'', JArr (map path_and_content
                                              [JObj [(''path'', JStr ''src/App.tsx'')]]))]))
            AwaitWriteChanges showing_42"
    using a 2 by simp
  moreover have "handleSubmit_resume scenario_deps 2000 2001 AwaitModify
       (Inr (model_answer (JStr ''not json''))) showing_42 =
     submit_catch 2000 2001 SyntaxError showing_42"
    using b 4 by simp
  moreover have "handleSubmit_resume (scenario_deps\<lparr>JSON_parse := \<lambda>v. Inr (JArr [JNull])\<rparr>)
       2000 2001 AwaitModify (Inr (model_answer rewrite_raw)) showing_42 =
     submit_catch 2000 2001 TypeError showing_42"
    using c by simp
  moreover have "handleSubmit_resume (scenario_deps\<lparr>JSON_parse := \<lambda>v. Inr (JObj [])\<rparr>)
       2000 2001 AwaitModify (Inr (model_answer rewrite_raw)) showing_42 =
     submit_catch 2000 2001 TypeError showing_42"
    using d by simp
  ultimately show ?thesis
    using 1 2 4 by (simp add: path_and_content_def)
qed

text \<open>
  C2 as stated fails: the rewrite stage returns one item without a content field, and
  the change is not rejected. The item is submitted to the write service and the run
  reports success.
\<close>

theorem rewrite_missing_content_counterexample:
  "JSON_parse scenario_deps rewrite_raw = Inr (JArr [JObj [(''path'', JStr ''src/App.tsx'')]]) \<and>
   Request (Post WriteFiles
              (JObj [(''baseDir'', JStr pwd),
                     (''files'', JArr [JObj [(''path'', JStr ''src/App.tsx''),
                                             (''content'', JUndefined)]])]))
     \<in> set (new_actions showing_42
               (handleSubmit scenario_deps services 1000 1001 2000 2001 showing_42)) \<and>
   error (handleSubmit scenario_deps services 1000 1001 2000 2001 showing_42) = [] \<and>
   content (last (messages (handleSubmit scenario_deps services 1000 1001 2000 2001 showing_42)))
     = ''Changes applied successfully!''"
  by (simp add: change_run new_actions_def)
     (simp add: showing_42_def initial_state_def change_actions_def scenario_deps_def)

text \<open>
  C5. Whether it succeeds or fails, a run of \<open>handleSubmit\<close> leaves the preview URL
  and the display status as they were, and the only services it sends requests to are
  those of the modification pipeline: it never contacts the project store, where the
  recorded deployment URL and status live, nor the package or build/deploy services.
\<close>

theorem applyChange_frame:
  "previewUrl (handleSubmit d env now date now' date' s) = previewUrl s \<and>
   projectStatus (handleSubmit d env now date now' date' s) = projectStatus s \<and>
   set (endpoints (new_actions s (handleSubmit d env now date now' date' s)))
     \<subseteq> modification_endpoints"
  using handleSubmit_frame [of s d env now date now' date']
  by (auto simp: submit_frame_def new_actions_def)

theorem applyChange_frame_witness:
  "previewUrl (handleSubmit scenario_deps services 1000 1001 2000 2001 showing_42) =
     JStr ''https://preview.example/42'' \<and>
   projectStatus (handleSubmit scenario_deps services 1000 1001 2000 2001 showing_42) = Ready \<and>
   set (endpoints (new_actions showing_42
                     (handleSubmit scenario_deps services 1000 1001 2000 2001 showing_42)))
     \<subseteq> modification_endpoints"
  using applyChange_frame [of scenario_deps services 1000 1001 2000 2001 showing_42]
  by (simp add: showing_42_def)

section \<open>The event loop\<close>

lemma generateCode_resume_guard:
  "generateCode_resume d k r s = (s', p') \<Longrightarrow>
     (case p' of None \<Rightarrow> \<not> isGenerating s' | Some t \<Rightarrow> isGenerating s' = isGenerating s)"
  by (cases k)
     (auto simp: gen_catch_def gen_finally_def finished_def await_def emit_def
                 post_generateFrontend_def Let_def
           split: sum.splits if_splits)

lemma fetch_resume_guard:
  "fetchProjectDeploymentUrl_resume k r s = (s', p') \<Longrightarrow> p' = None \<and> isGenerating s' = isGenerating s"
  by (cases k)
     (auto simp: fetch_catch_def fetch_finally_def finished_def emit_def
           split: sum.splits if_splits)

lemma submit_resume_guard:
  "handleSubmit_resume d now date k r s = (s', p') \<Longrightarrow> isGenerating s' = isGenerating s"
  by (cases k)
     (auto simp: submit_catch_def submit_finally_def finished_def await_def emit_def
           split: sum.splits if_splits)

lemma comp_spawn_guard [simp]:
  "isGenerating (comp (spawn K fl ts (s, p))) = isGenerating s"
  by (cases p) auto

lemma active_spawn_fetch [simp]:
  "active_generations (spawn FetchK fl ts c) = length (filter is_generation ts)"
  by (cases "(FetchK, fl, ts, c)" rule: spawn.cases) (auto simp: active_generations_def)

lemma active_spawn_submit [simp]:
  "active_generations (spawn SubmitK fl ts c) = length (filter is_generation ts)"
  by (cases "(SubmitK, fl, ts, c)" rule: spawn.cases) (auto simp: active_generations_def)

lemma active_spawn_gen [simp]:
  "active_generations (spawn GenK fl ts (s, p)) =
     length (filter is_generation ts) + (if p = None then 0 else 1)"
  by (cases p) (auto simp: active_generations_def)

lemma active_comp_update [simp]: "active_generations (sys\<lparr>comp := c\<rparr>) = active_generations sys"
  by (simp add: active_generations_def)

lemma filter_without_nth:
  assumes "n < length ts"
  shows "length (filter P ts) =
           length (filter P (take n ts @ drop (Suc n) ts)) + (if P (ts ! n) then 1 else 0)"
proof -
  have "ts = take n ts @ ts ! n # drop (Suc n) ts"
    using assms by (rule id_take_nth_drop)
  then have "length (filter P ts) = length (filter P (take n ts @ ts ! n # drop (Suc n) ts))"
    by simp
  then show ?thesis by simp
qed

lemma guard_agrees_step:
  assumes "guard_agrees sys"
  shows "guard_agrees (step d loc sys ev)"
proof (cases ev)
  case (Effect seen)
  show ?thesis
  proof (cases "hasInitialized (comp sys)")
    case True
    then show ?thesis using assms Effect by simp
  next
    case False
    obtain s1 p1 where f: "fetchProjectDeploymentUrl_begin seen (the (projectId loc)) (comp sys) = (s1, p1)"
      by (cases "fetchProjectDeploymentUrl_begin seen (the (projectId loc)) (comp sys)")
    then have fg: "isGenerating s1 = isGenerating (comp sys)"
      by (auto simp: fetchProjectDeploymentUrl_begin_def finished_def await_def emit_def
               split: if_splits)
    obtain s2 p2 where g: "generateCode_begin (the (navPrompt loc)) (projectId loc)
                             ((comp sys)\<lparr>prompt := the (navPrompt loc)\<rparr>) = (s2, p2)"
      by (cases "generateCode_begin (the (navPrompt loc)) (projectId loc)
                             ((comp sys)\<lparr>prompt := the (navPrompt loc)\<rparr>)")
    then have gg: "isGenerating s2" "(p2 = None) = isGenerating (comp sys)"
      by (auto simp: generateCode_begin_def finished_def await_def emit_def Let_def
                     post_generateFrontend_def
               split: if_splits)
    have old: "length (filter is_generation (pending sys)) =
                 (if isGenerating (comp sys) then 1 else 0)"
      using assms by (simp add: guard_agrees_def active_generations_def)
    show ?thesis
      using Effect False f fg g gg old assms
      by (simp add: guard_agrees_def initializeProject_def del: spawn.simps)
  qed
next
  case (Typing typed)
  then show ?thesis using assms by (simp add: guard_agrees_def)
next
  case (Submit now date)
  obtain s1 p1 where b: "handleSubmit_begin d now date (comp sys) = (s1, p1)"
    by (cases "handleSubmit_begin d now date (comp sys)")
  then have "isGenerating s1 = isGenerating (comp sys)"
    by (auto simp: handleSubmit_begin_def finished_def await_def emit_def Let_def
             split: if_splits)
  moreover have "length (filter is_generation (pending sys)) =
                   (if isGenerating (comp sys) then 1 else 0)"
    using assms by (simp add: guard_agrees_def active_generations_def)
  ultimately show ?thesis
    using Submit b by (simp add: guard_agrees_def del: spawn.simps)
next
  case (Settle n r now date)
  show ?thesis
  proof (cases "n < length (pending sys)")
    case False
    then show ?thesis using assms Settle by simp
  next
    case True
    obtain rq k fl where task: "pending sys ! n = (rq, k, fl)"
      by (cases "pending sys ! n")
    let ?rest = "take n (pending sys) @ drop (Suc n) (pending sys)"
    have count: "active_generations sys =
                   length (filter is_generation ?rest) + (if is_generation (rq, k, fl) then 1 else 0)"
      using filter_without_nth [OF True, of is_generation] task
      by (simp add: active_generations_def)
    have st: "step d loc sys ev = resume d now date k fl r ?rest (comp sys)"
      using Settle True task by simp
    show ?thesis
    proof (cases k)
      case (FetchK fk)
      obtain s1 p1 where b: "fetchProjectDeploymentUrl_resume fk r (comp sys) = (s1, p1)"
        by (cases "fetchProjectDeploymentUrl_resume fk r (comp sys)")
      from fetch_resume_guard [OF b] show ?thesis
        using assms count st FetchK b by (simp add: guard_agrees_def del: spawn.simps)
    next
      case (SubmitK sk)
      obtain s1 p1 where b: "handleSubmit_resume d now date sk r (comp sys) = (s1, p1)"
        by (cases "handleSubmit_resume d now date sk r (comp sys)")
      from submit_resume_guard [OF b] show ?thesis
        using assms count st SubmitK b by (simp add: guard_agrees_def del: spawn.simps)
    next
      case (GenK gk)
      obtain s1 p1 where b: "generateCode_resume d gk r (comp sys) = (s1, p1)"
        by (cases "generateCode_resume d gk r (comp sys)")
      have "isGenerating (comp sys)" "length (filter is_generation ?rest) = 0"
        using assms count GenK by (auto simp: guard_agrees_def split: if_splits)
      with generateCode_resume_guard [OF b] show ?thesis
        using st GenK b by (auto simp: guard_agrees_def simp del: spawn.simps split: option.splits)
    qed
  qed
qed

lemma guard_agrees_run: "guard_agrees (run_events d loc evs)"
proof (induction evs rule: rev_induct)
  case Nil
  show ?case
    by (simp add: run_events_def guard_agrees_def mounted_def active_generations_def
                  initial_state_def)
next
  case (snoc ev evs)
  then show ?case
    using guard_agrees_step [of "run_events d loc evs" d loc ev]
    by (simp add: run_events_def)
qed

subsection \<open>The guard of handleSubmit\<close>

lemma submit_begin_loading:
  "handleSubmit_begin d now date s = (s', p') \<Longrightarrow>
     (case p' of None \<Rightarrow> s' = s | Some t \<Rightarrow> \<not> isLoading s \<and> isLoading s')"
  by (auto simp: handleSubmit_begin_def finished_def await_def emit_def Let_def
           split: if_splits)

lemma submit_resume_loading:
  "handleSubmit_resume d now date k r s = (s', p') \<Longrightarrow>
     (case p' of None \<Rightarrow> \<not> isLoading s' | Some t \<Rightarrow> isLoading s' = isLoading s)"
  by (cases k)
     (auto simp: submit_catch_def submit_finally_def finished_def await_def emit_def
           split: sum.splits if_splits)

lemma generateCode_begin_loading:
  "generateCode_begin u i s = (s', p') \<Longrightarrow> isLoading s' = isLoading s"
  by (auto simp: generateCode_begin_def finished_def await_def emit_def Let_def
                 post_generateFrontend_def
           split: if_splits)

lemma generateCode_resume_loading:
  "generateCode_resume d k r s = (s', p') \<Longrightarrow> isLoading s' = isLoading s"
  by (cases k)
     (auto simp: gen_catch_def gen_finally_def finished_def await_def emit_def
                 post_generateFrontend_def Let_def
           split: sum.splits if_splits)

lemma fetch_begin_loading:
  "fetchProjectDeploymentUrl_begin seen i s = (s', p') \<Longrightarrow> isLoading s' = isLoading s"
  by (auto simp: fetchProjectDeploymentUrl_begin_def finished_def await_def emit_def
           split: if_splits)

lemma fetch_resume_loading:
  "fetchProjectDeploymentUrl_resume k r s = (s', p') \<Longrightarrow> isLoading s' = isLoading s"
  by (cases k)
     (auto simp: fetch_catch_def fetch_finally_def finished_def emit_def
           split: sum.splits if_splits)

lemma comp_spawn_loading [simp]:
  "isLoading (comp (spawn K fl ts (s, p))) = isLoading s"
  by (cases p) auto

lemma modifications_spawn_fetch [simp]:
  "active_modifications (spawn FetchK fl ts c) = length (filter is_modification ts)"
  by (cases "(FetchK, fl, ts, c)" rule: spawn.cases) (auto simp: active_modifications_def)

lemma modifications_spawn_gen [simp]:
  "active_modifications (spawn GenK fl ts c) = length (filter is_modification ts)"
  by (cases "(GenK, fl, ts, c)" rule: spawn.cases) (auto simp: active_modifications_def)

lemma modifications_spawn_submit [simp]:
  "active_modifications (spawn SubmitK fl ts (s, p)) =
     length (filter is_modification ts) + (if p = None then 0 else 1)"
  by (cases p) (auto simp: active_modifications_def)

lemma modifications_comp_update [simp]:
  "active_modifications (sys\<lparr>comp := c\<rparr>) = active_modifications sys"
  by (simp add: active_modifications_def)

lemma loading_agrees_step:
  assumes "loading_agrees sys"
  shows "loading_agrees (step d loc sys ev)"
proof -
  have old: "length (filter is_modification (pending sys)) =
               (if isLoading (comp sys) then 1 else 0)"
    using assms by (simp add: loading_agrees_def active_modifications_def)
  show ?thesis
  proof (cases ev)
    case (Effect seen)
    show ?thesis
    proof (cases "hasInitialized (comp sys)")
      case True
      then show ?thesis using assms Effect by simp
    next
      case False
      obtain s1 p1 where f: "fetchProjectDeploymentUrl_begin seen (the (projectId loc)) (comp sys) = (s1, p1)"
        by (cases "fetchProjectDeploymentUrl_begin seen (the (projectId loc)) (comp sys)")
      obtain s2 p2 where g: "generateCode_begin (the (navPrompt loc)) (projectId loc)
                               ((comp sys)\<lparr>prompt := the (navPrompt loc)\<rparr>) = (s2, p2)"
        by (cases "generateCode_begin (the (navPrompt loc)) (projectId loc)
                               ((comp sys)\<lparr>prompt := the (navPrompt loc)\<rparr>)")
      show ?thesis
        using Effect False f g old assms fetch_begin_loading [OF f] generateCode_begin_loading [OF g]
        by (simp add: loading_agrees_def initializeProject_def del: spawn.simps)
    qed
  next
    case (Typing typed)
    then show ?thesis using assms by (simp add: loading_agrees_def)
  next
    case (Submit now date)
    obtain s1 p1 where b: "handleSubmit_begin d now date (comp sys) = (s1, p1)"
      by (cases "handleSubmit_begin d now date (comp sys)")
    from submit_begin_loading [OF b] show ?thesis
      using Submit b old
      by (auto simp: loading_agrees_def simp del: spawn.simps split: option.splits)
  next
    case (Settle n r now date)
    show ?thesis
    proof (cases "n < length (pending sys)")
      case False
      then show ?thesis using assms Settle by simp
    next
      case True
      obtain rq k fl where task: "pending sys ! n = (rq, k, fl)"
        by (cases "pending sys ! n")
      let ?rest = "take n (pending sys) @ drop (Suc n) (pending sys)"
      have count: "active_modifications sys =
                     length (filter is_modification ?rest) +
                     (if is_modification (rq, k, fl) then 1 else 0)"
        using filter_without_nth [OF True, of is_modification] task
        by (simp add: active_modifications_def)
      have st: "step d loc sys ev = resume d now date k fl r ?rest (comp sys)"
        using Settle True task by simp
      show ?thesis
      proof (cases k)
        case (FetchK fk)
        obtain s1 p1 where b: "fetchProjectDeploymentUrl_resume fk r (comp sys) = (s1, p1)"
          by (cases "fetchProjectDeploymentUrl_resume fk r (comp sys)")
        from fetch_resume_loading [OF b] show ?thesis
          using assms count st FetchK b by (simp add: loading_agrees_def del: spawn.simps)
      next
        case (GenK gk)
        obtain s1 p1 where b: "generateCode_resume d gk r (comp sys) = (s1, p1)"
          by (cases "generateCode_resume d gk r (comp sys)")
        from generateCode_resume_loading [OF b] show ?thesis
          using assms count st GenK b by (simp add: loading_agrees_def del: spawn.simps)
      next
        case (SubmitK sk)
        obtain s1 p1 where b: "handleSubmit_resume d now date sk r (comp sys) = (s1, p1)"
          by (cases "handleSubmit_resume d now date sk r (comp sys)")
        have "isLoading (comp sys)" "length (filter is_modification ?rest) = 0"
          using assms count SubmitK by (auto simp: loading_agrees_def split: if_splits)
        with submit_resume_loading [OF b] show ?thesis
          using st SubmitK b
          by (auto simp: loading_agrees_def simp del: spawn.simps split: option.splits)
      qed
    qed
  qed
qed

lemma loading_agrees_run: "loading_agrees (run_events d loc evs)"
proof (induction evs rule: rev_induct)
  case Nil
  show ?case
    by (simp add: run_events_def loading_agrees_def mounted_def active_modifications_def
                  initial_state_def)
next
  case (snoc ev evs)
  then show ?case
    using loading_agrees_step [of "run_events d loc evs" d loc ev]
    by (simp add: run_events_def)
qed

lemma submit_absorbed:
  "isLoading (comp sys) \<Longrightarrow> step d loc sys (Submit now date) = sys"
  by (simp add: handleSubmit_begin_def finished_def)

lemma run_submit_releases:
  assumes "p = None \<longrightarrow> \<not> isLoading s"
  shows "\<not> isLoading (run_submit d env now date (s, p))"
  using assms
proof (induction d env now date "(s, p)" arbitrary: s p rule: run_submit.induct)
  case (1 d env now date s)
  then show ?case by simp
next
  case (2 d env now date s rq k)
  obtain s' p' where sp: "handleSubmit_resume d now date k (env rq) s = (s', p')"
    by (cases "handleSubmit_resume d now date k (env rq) s")
  from submit_resume_loading [OF sp] have "p' = None \<longrightarrow> \<not> isLoading s'"
    by (auto split: option.splits)
  from 2(1) [OF sp this] show ?case using sp by simp
qed

lemma handleSubmit_releases:
  assumes "\<not> isLoading s"
  shows "\<not> isLoading (handleSubmit d env now date now' date' s)"
proof -
  obtain s1 p1 where b: "handleSubmit_begin d now date s = (s1, p1)"
    by (cases "handleSubmit_begin d now date s")
  have "p1 = None \<longrightarrow> \<not> isLoading s1"
    using submit_begin_loading [OF b] assms by (auto split: option.splits)
  then show ?thesis
    by (simp add: handleSubmit_def b run_submit_releases)
qed

lemma fetches_spawn_fetch [simp]:
  "active_fetches (spawn FetchK fl ts (s, p)) =
     length (filter is_fetch ts) + (if p = None then 0 else 1)"
  by (cases p) (auto simp: active_fetches_def)

lemma fetches_spawn_gen [simp]:
  "active_fetches (spawn GenK fl ts c) = length (filter is_fetch ts)"
  by (cases "(GenK, fl, ts, c)" rule: spawn.cases) (auto simp: active_fetches_def)

lemma fetches_spawn_submit [simp]:
  "active_fetches (spawn SubmitK fl ts c) = length (filter is_fetch ts)"
  by (cases "(SubmitK, fl, ts, c)" rule: spawn.cases) (auto simp: active_fetches_def)

lemma fetches_comp_update [simp]:
  "active_fetches (sys\<lparr>comp := c\<rparr>) = active_fetches sys"
  by (simp add: active_fetches_def)

lemma built_run:
  "run_events scenario_deps new_project built_events =
     \<lparr>comp = initial_state\<lparr>prompt := ''build a todo app'', isGenerating := True,
               loadingCode := True, ctxValue := todo_structure,
               previewUrl := JStr ''https://preview.example/42'', projectStatus := Ready,
               trace := todo_actions\<rparr>,
      pending = [(record_request, GenK AwaitRecord, True)]\<rparr>"
  by (simp add: run_events_def built_events_def mounted_def new_project_def initializeProject_def
                run_defs todo_actions_def)

lemma fetch_begin_status:
  assumes "fetchProjectDeploymentUrl_begin seen i s = (s1, p1)"
  shows "(s1 = s \<and> p1 = None) \<or> (projectStatus s1 = Loading \<and> p1 \<noteq> None)"
  using assms
  by (auto simp: fetchProjectDeploymentUrl_begin_def finished_def await_def emit_def
           split: if_splits)

lemma fetch_resume_status:
  assumes "fetchProjectDeploymentUrl_resume k r s = (s1, p1)"
  shows "p1 = None \<and> (projectStatus s1 = Ready \<or> projectStatus s1 = Error)"
  using assms
  by (cases k)
     (auto simp: fetch_catch_def fetch_finally_def finished_def emit_def
           split: sum.splits if_splits)

lemma generateCode_begin_status:
  assumes "generateCode_begin u i s = (s1, p1)"
  shows "(isGenerating s \<and> s1 = s \<and> p1 = None) \<or>
         (\<not> isGenerating s \<and> projectStatus s1 = Loading \<and>
          (\<exists>rq k. p1 = Some (rq, k) \<and> k \<noteq> AwaitRecord))"
  using assms
  by (auto simp: generateCode_begin_def finished_def await_def emit_def Let_def
                 post_generateFrontend_def
           split: if_splits)

lemma generateCode_resume_status:
  assumes "generateCode_resume d k r s = (s1, p1)"
    and "projectStatus s = (if k = AwaitRecord then Ready else Loading)"
  shows "case p1 of
           None \<Rightarrow> projectStatus s1 = Ready \<or> projectStatus s1 = Error
         | Some (rq, k') \<Rightarrow>
             k \<noteq> AwaitRecord \<and>
             projectStatus s1 = (if k' = AwaitRecord then Ready else Loading)"
  using assms
  by (cases k)
     (auto simp: gen_catch_def gen_finally_def finished_def await_def emit_def
                 post_generateFrontend_def Let_def
           split: sum.splits if_splits)

lemma handleSubmit_begin_status:
  "handleSubmit_begin d now date s = (s1, p1) \<Longrightarrow> projectStatus s1 = projectStatus s"
  by (auto simp: handleSubmit_begin_def finished_def await_def emit_def Let_def
           split: if_splits)

lemma handleSubmit_resume_status:
  "handleSubmit_resume d now date k r s = (s1, p1) \<Longrightarrow> projectStatus s1 = projectStatus s"
  by (cases k)
     (auto simp: submit_catch_def submit_finally_def finished_def await_def emit_def
           split: sum.splits if_splits)

lemma tasks_while_fetching:
  assumes "fetches loc" and "list_all (task_ok loc st) ts" and "st' \<noteq> Idle"
  shows "list_all (task_ok loc st') ts"
  unfolding list_all_iff
proof
  fix t assume "t \<in> set ts"
  then have ok: "task_ok loc st t" using assms(2) by (simp add: list_all_iff)
  obtain rq k fl where t: "t = (rq, k, fl)" by (cases t)
  show "task_ok loc st' t"
    using ok assms(1,3) unfolding t by (cases k) (auto simp: generates_def)
qed

lemma tasks_without_generation:
  assumes "\<not> fetches loc" and "list_all (task_ok loc st) ts"
    and "filter is_generation ts = []"
  shows "list_all (task_ok loc st') ts"
  unfolding list_all_iff
proof
  fix t assume m: "t \<in> set ts"
  then have ok: "task_ok loc st t" using assms(2) by (simp add: list_all_iff)
  have ng: "\<not> is_generation t" using assms(3) m by (auto simp: filter_empty_conv)
  obtain rq k fl where t: "t = (rq, k, fl)" by (cases t)
  show "task_ok loc st' t"
    using ok ng assms(1) unfolding t by (cases k) auto
qed

lemma tasks_rest:
  "list_all P ts \<Longrightarrow> list_all P (take n ts @ drop (Suc n) ts)"
  by (auto simp: list_all_iff dest: in_set_takeD in_set_dropD)

lemma pending_spawn:
  "pending (spawn K fl ts (s, p)) =
     ts @ (case p of None \<Rightarrow> [] | Some (rq, k) \<Rightarrow> [(rq, K k, fl)])"
  by (cases p) auto

lemma status_spawn: "projectStatus (comp (spawn K fl ts (s, p))) = projectStatus s"
  by (cases p) auto

lemma status_step:
  assumes inv: "status_inv loc sys"
  shows "status_inv loc (step d loc sys ev) \<and>
         transition_ok sys ev (projectStatus (comp sys)) (projectStatus (comp (step d loc sys ev)))"
proof -
  let ?old = "projectStatus (comp sys)"
  have ga: "guard_agrees sys" and tasks: "list_all (task_ok loc ?old) (pending sys)"
    and idle: "fetches loc \<or> generates loc \<or> ?old = Idle"
    using inv by (auto simp: status_inv_def)
  have ga': "guard_agrees (step d loc sys ev)"
    using ga by (rule guard_agrees_step)
  have count: "length (filter is_generation (pending sys)) = (if isGenerating (comp sys) then 1 else 0)"
    using ga by (simp add: guard_agrees_def active_generations_def)
  show ?thesis
  proof (cases ev)
    case (Effect seen)
    show ?thesis
    proof (cases "hasInitialized (comp sys)")
      case True
      then show ?thesis using inv Effect by (simp add: transition_ok_def)
    next
      case False
      consider (f) "fetches loc" | (g) "generates loc" | (n) "\<not> fetches loc" "\<not> generates loc"
        by blast
      then show ?thesis
      proof cases
        case f
        obtain s1 p1 where b: "fetchProjectDeploymentUrl_begin seen (the (projectId loc)) (comp sys) = (s1, p1)"
          by (cases "fetchProjectDeploymentUrl_begin seen (the (projectId loc)) (comp sys)")
        have st: "step d loc sys ev = spawn FetchK True (pending sys) (s1, p1)"
          using Effect False f b by (simp add: initializeProject_def fetches_def)
        from fetch_begin_status [OF b] show ?thesis
        proof
          assume "s1 = comp sys \<and> p1 = None"
          then show ?thesis
            using ga' tasks idle unfolding st
            by (simp add: status_inv_def transition_ok_def)
        next
          assume a: "projectStatus s1 = Loading \<and> p1 \<noteq> None"
          then obtain rq k where p1: "p1 = Some (rq, k)" by auto
          have "list_all (task_ok loc Loading) (pending sys)"
            using tasks_while_fetching [OF f tasks, of Loading] by simp
          then show ?thesis
            using ga' a f Effect unfolding st p1
            by (simp add: status_inv_def transition_ok_def)
        qed
      next
        case g
        then have nf: "\<not> fetches loc" by (simp add: generates_def)
        obtain s1 p1 where b: "generateCode_begin (the (navPrompt loc)) (projectId loc)
                                 ((comp sys)\<lparr>prompt := the (navPrompt loc)\<rparr>) = (s1, p1)"
          by (cases "generateCode_begin (the (navPrompt loc)) (projectId loc)
                                 ((comp sys)\<lparr>prompt := the (navPrompt loc)\<rparr>)")
        have st: "step d loc sys ev = spawn GenK True (pending sys) (s1, p1)"
          using Effect False g b by (auto simp: initializeProject_def generates_def fetches_def)
        from generateCode_begin_status [OF b] show ?thesis
        proof
          assume "isGenerating ((comp sys)\<lparr>prompt := the (navPrompt loc)\<rparr>) \<and>
                  s1 = (comp sys)\<lparr>prompt := the (navPrompt loc)\<rparr> \<and> p1 = None"
          then show ?thesis
            using ga' tasks idle unfolding st
            by (simp add: status_inv_def transition_ok_def)
        next
          assume a: "\<not> isGenerating ((comp sys)\<lparr>prompt := the (navPrompt loc)\<rparr>) \<and>
                     projectStatus s1 = Loading \<and>
                     (\<exists>rq k. p1 = Some (rq, k) \<and> k \<noteq> AwaitRecord)"
          then obtain rq k where p1: "p1 = Some (rq, k)" "k \<noteq> AwaitRecord" by auto
          have "filter is_generation (pending sys) = []"
            using count a by simp
          then have "list_all (task_ok loc Loading) (pending sys)"
            using tasks_without_generation [OF nf tasks] by simp
          then show ?thesis
            using ga' a g p1 Effect unfolding st
            by (simp add: status_inv_def transition_ok_def)
        qed
      next
        case n
        then have o: "?old = Idle" using idle by simp
        have st: "step d loc sys ev =
                    sys\<lparr>comp := (comp sys)\<lparr>projectStatus := Idle, hasInitialized := True\<rparr>\<rparr>"
          using Effect False n by (auto simp: initializeProject_def fetches_def generates_def)
        show ?thesis
          using ga' tasks o unfolding st
          by (simp add: status_inv_def transition_ok_def)
      qed
    qed
  next
    case (Typing typed)
    then show ?thesis
      using ga' tasks idle by (simp add: status_inv_def transition_ok_def)
  next
    case (Submit now date)
    obtain s1 p1 where b: "handleSubmit_begin d now date (comp sys) = (s1, p1)"
      by (cases "handleSubmit_begin d now date (comp sys)")
    have st: "step d loc sys ev = spawn SubmitK False (pending sys) (s1, p1)"
      using Submit b by simp
    from handleSubmit_begin_status [OF b] show ?thesis
      using ga' tasks idle unfolding st
      by (auto simp: status_inv_def transition_ok_def status_spawn pending_spawn
               simp del: spawn.simps split: option.splits)
  next
    case (Settle n r now date)
    show ?thesis
    proof (cases "n < length (pending sys)")
      case False
      then show ?thesis using inv Settle by (simp add: transition_ok_def)
    next
      case True
      obtain rq k fl where task: "pending sys ! n = (rq, k, fl)"
        by (cases "pending sys ! n")
      let ?rest = "take n (pending sys) @ drop (Suc n) (pending sys)"
      have ok: "task_ok loc ?old (rq, k, fl)"
        using tasks True task by (auto simp: list_all_iff dest: nth_mem)
      have rest: "list_all (task_ok loc ?old) ?rest"
        using tasks by (rule tasks_rest)
      have st: "step d loc sys ev = resume d now date k fl r ?rest (comp sys)"
        using Settle True task by simp
      have se: "settled sys ev = Some k"
        using Settle True task by simp
      show ?thesis
      proof (cases k)
        case (FetchK fk)
        then have f: "fetches loc" and ni: "?old \<noteq> Idle" using ok by auto
        obtain s1 p1 where b: "fetchProjectDeploymentUrl_resume fk r (comp sys) = (s1, p1)"
          by (cases "fetchProjectDeploymentUrl_resume fk r (comp sys)")
        from fetch_resume_status [OF b]
        have p1: "p1 = None" and new: "projectStatus s1 = Ready \<or> projectStatus s1 = Error"
          by auto
        have "list_all (task_ok loc (projectStatus s1)) ?rest"
          using tasks_while_fetching [OF f rest, of "projectStatus s1"] new by auto
        moreover have "transition_ok sys ev ?old (projectStatus s1)"
          using new ni se FetchK by (cases fk) (auto simp: transition_ok_def)
        ultimately show ?thesis
          using ga' f unfolding st FetchK
          by (simp add: status_inv_def b p1)
      next
        case (GenK gk)
        then have g: "generates loc"
          and old: "?old = (if gk = AwaitRecord then Ready else Loading)"
          using ok by auto
        then have nf: "\<not> fetches loc" by (simp add: generates_def)
        obtain s1 p1 where b: "generateCode_resume d gk r (comp sys) = (s1, p1)"
          by (cases "generateCode_resume d gk r (comp sys)")
        have "length (filter is_generation (pending sys)) =
                length (filter is_generation ?rest) + (if is_generation (rq, k, fl) then 1 else 0)"
          using filter_without_nth [OF True, of is_generation] task by simp
        then have none: "filter is_generation ?rest = []"
          using count GenK by (auto split: if_splits)
        have rest': "list_all (task_ok loc (projectStatus s1)) ?rest"
          using tasks_without_generation [OF nf rest none] .
        show ?thesis
        proof (cases p1)
          case None
          then have new: "projectStatus s1 = Ready \<or> projectStatus s1 = Error"
            using generateCode_resume_status [OF b old] by simp
          have "transition_ok sys ev ?old (projectStatus s1)"
            using new old se GenK by (auto simp: transition_ok_def)
          then show ?thesis
            using ga' g rest' unfolding st GenK
            by (simp add: status_inv_def b None)
        next
          case (Some t)
          obtain rq' k' where t: "t = (rq', k')" by (cases t)
          have new: "gk \<noteq> AwaitRecord"
            "projectStatus s1 = (if k' = AwaitRecord then Ready else Loading)"
            using generateCode_resume_status [OF b old] Some t by auto
          have "transition_ok sys ev ?old (projectStatus s1)"
            using new old se GenK by (auto simp: transition_ok_def)
          then show ?thesis
            using ga' g rest' new unfolding st GenK
            by (simp add: status_inv_def b Some t)
        qed
      next
        case (SubmitK sk)
        obtain s1 p1 where b: "handleSubmit_resume d now date sk r (comp sys) = (s1, p1)"
          by (cases "handleSubmit_resume d now date sk r (comp sys)")
        from handleSubmit_resume_status [OF b] show ?thesis
          using ga' rest idle unfolding st SubmitK
          by (auto simp: status_inv_def transition_ok_def b status_spawn pending_spawn
                   simp del: spawn.simps split: option.splits)
      qed
    qed
  qed
qed

lemma run_events_snoc: "run_events d loc (evs @ [ev]) = step d loc (run_events d loc evs) ev"
  by (simp add: run_events_def)

lemma status_inv_run: "status_inv loc (run_events d loc evs)"
proof (induction evs rule: rev_induct)
  case Nil
  show ?case
    by (simp add: run_events_def status_inv_def guard_agrees_def mounted_def
                  active_generations_def initial_state_def)
next
  case (snoc ev evs)
  then show ?case
    using status_step [of loc "run_events d loc evs" d ev]
    by (simp add: run_events_snoc)
qed

subsection \<open>A single fetch\<close>

lemma fetch_inv_step:
  assumes inv: "fetch_inv n sys" and st: "status_inv loc sys" and f: "fetches loc"
    and once: "n + (if is_command ev then 1 else 0) \<le> 1"
  shows "fetch_inv (n + (if is_command ev then 1 else 0)) (step d loc sys ev)"
proof -
  have count: "length (filter is_fetch (pending sys)) \<le> n"
    and load: "0 < length (filter is_fetch (pending sys)) \<longrightarrow> projectStatus (comp sys) = Loading"
    using inv by (simp_all add: fetch_inv_def active_fetches_def)
  show ?thesis
  proof (cases ev)
    case (Effect seen)
    then have none: "length (filter is_fetch (pending sys)) = 0"
      using once count by simp
    show ?thesis
    proof (cases "hasInitialized (comp sys)")
      case True
      then show ?thesis using Effect none by (simp add: fetch_inv_def active_fetches_def)
    next
      case False
      obtain s1 p1 where b: "fetchProjectDeploymentUrl_begin seen (the (projectId loc)) (comp sys) = (s1, p1)"
        by (cases "fetchProjectDeploymentUrl_begin seen (the (projectId loc)) (comp sys)")
      have stp: "step d loc sys ev = spawn FetchK True (pending sys) (s1, p1)"
        using Effect False f b by (simp add: initializeProject_def fetches_def)
      from fetch_begin_status [OF b] show ?thesis
        unfolding stp using none Effect
        by (auto simp: fetch_inv_def status_spawn simp del: spawn.simps)
    qed
  next
    case (Typing typed)
    then show ?thesis using inv by (simp add: fetch_inv_def)
  next
    case (Submit now date)
    obtain s1 p1 where b: "handleSubmit_begin d now date (comp sys) = (s1, p1)"
      by (cases "handleSubmit_begin d now date (comp sys)")
    from handleSubmit_begin_status [OF b] show ?thesis
      using Submit b count load by (simp add: fetch_inv_def status_spawn del: spawn.simps)
  next
    case (Settle m r now date)
    show ?thesis
    proof (cases "m < length (pending sys)")
      case False
      then show ?thesis using Settle inv by simp
    next
      case True
      obtain rq k fl where task: "pending sys ! m = (rq, k, fl)"
        by (cases "pending sys ! m")
      let ?rest = "take m (pending sys) @ drop (Suc m) (pending sys)"
      have split: "length (filter is_fetch (pending sys)) =
                     length (filter is_fetch ?rest) + (if is_fetch (rq, k, fl) then 1 else 0)"
        using filter_without_nth [OF True, of is_fetch] task by simp
      have stp: "step d loc sys ev = resume d now date k fl r ?rest (comp sys)"
        using Settle True task by simp
      have ok: "task_ok loc (projectStatus (comp sys)) (rq, k, fl)"
        using st True task by (auto simp: status_inv_def list_all_iff dest: nth_mem)
      show ?thesis
      proof (cases k)
        case (FetchK fk)
        obtain s1 p1 where b: "fetchProjectDeploymentUrl_resume fk r (comp sys) = (s1, p1)"
          by (cases "fetchProjectDeploymentUrl_resume fk r (comp sys)")
        from fetch_resume_status [OF b] have p1: "p1 = None" by simp
        have n1: "n \<le> 1" using once by simp
        have "length (filter is_fetch (pending sys)) = length (filter is_fetch ?rest) + 1"
          using split FetchK by simp
        then have "length (filter is_fetch ?rest) = 0"
          using count n1 by arith
        then show ?thesis
          unfolding stp FetchK using Settle b p1 by (simp add: fetch_inv_def del: spawn.simps)
      next
        case (GenK gk)
        then have False using ok f by (simp add: generates_def)
        then show ?thesis ..
      next
        case (SubmitK sk)
        obtain s1 p1 where b: "handleSubmit_resume d now date sk r (comp sys) = (s1, p1)"
          by (cases "handleSubmit_resume d now date sk r (comp sys)")
        from handleSubmit_resume_status [OF b] show ?thesis
          unfolding stp using SubmitK Settle b split count load
          by (simp add: fetch_inv_def status_spawn del: spawn.simps)
      qed
    qed
  qed
qed

lemma commands_snoc:
  "commands (evs @ [ev]) = commands evs + (if is_command ev then 1 else 0)"
  by (simp add: commands_def)

lemma fetch_inv_run:
  assumes "fetches loc" and "commands evs \<le> 1"
  shows "fetch_inv (commands evs) (run_events d loc evs)"
  using assms(2)
proof (induction evs rule: rev_induct)
  case Nil
  show ?case
    by (simp add: commands_def run_events_def mounted_def fetch_inv_def active_fetches_def)
next
  case (snoc ev evs)
  have once: "commands evs + (if is_command ev then 1 else 0) \<le> 1"
    using snoc.prems by (simp add: commands_snoc)
  then have "commands evs \<le> 1" by simp
  then have "fetch_inv (commands evs) (run_events d loc evs)" by (rule snoc.IH)
  from fetch_inv_step [OF this status_inv_run assms(1) once, of d]
  show ?case by (simp add: run_events_snoc commands_snoc)
qed

lemma fetch_settles_from_loading:
  assumes "fetches loc \<longrightarrow> commands evs \<le> 1"
    and "settled (run_events d loc evs) ev = Some (FetchK k)"
  shows "projectStatus (comp (run_events d loc evs)) = Loading"
proof -
  let ?sys = "run_events d loc evs"
  from assms(2) obtain m r now date where ev: "ev = Settle m r now date"
    "m < length (pending ?sys)" "fst (snd (pending ?sys ! m)) = FetchK k"
    by (cases ev) (auto split: if_splits)
  then obtain rq fl where t: "pending ?sys ! m = (rq, FetchK k, fl)"
    by (cases "pending ?sys ! m") auto
  have mem: "(rq, FetchK k, fl) \<in> set (pending ?sys)"
    using ev(2) t by (metis nth_mem)
  have "task_ok loc (projectStatus (comp ?sys)) (rq, FetchK k, fl)"
    using status_inv_run [of loc d evs] mem by (auto simp: status_inv_def list_all_iff)
  then have "fetches loc" by simp
  then have "fetch_inv (commands evs) ?sys"
    using assms(1) by (simp add: fetch_inv_run)
  moreover have "0 < active_fetches ?sys"
    using mem by (force simp: active_fetches_def filter_empty_conv)
  ultimately show ?thesis by (simp add: fetch_inv_def)
qed

subsection \<open>The scenario on the page\<close>

lemma record_rejected_run:
  "run_events scenario_deps new_project (built_events @ [Settle 0 (Inl network_error) 0 0]) =
     \<lparr>comp = initial_state\<lparr>prompt := ''build a todo app'', hasInitialized := True,
               ctxValue := todo_structure,
               previewUrl := JStr ''https://preview.example/42'', projectStatus := Error,
               error := ''Failed to generate code'',
               trace := todo_actions @ [ConsoleError ''Error generating code:'' network_error]\<rparr>,
      pending = []\<rparr>"
  by (simp add: run_events_snoc built_run)
     (simp add: gen_catch_def gen_finally_def finished_def emit_def initial_state_def)

lemma overlap_run:
  "run_events scenario_deps new_project (built_events @ [Submit 10 11]) =
     \<lparr>comp = initial_state\<lparr>isGenerating := True, loadingCode := True, isLoading := True,
               ctxValue := todo_structure,
               previewUrl := JStr ''https://preview.example/42'', projectStatus := Ready,
               messages := [\<lparr>msg_id = 10, content = ''build a todo app'', msg_type = User,
                              timestamp = 11\<rparr>],
               trace := todo_actions @
                 [Request (Post GenerateChanges
                    (JObj [(''prompt'', JStr (analysisPrompt scenario_deps todo_structure
                                                ''build a todo app''))]))]\<rparr>,
      pending = [(record_request, GenK AwaitRecord, True),
                 (Post GenerateChanges
                    (JObj [(''prompt'', JStr (analysisPrompt scenario_deps todo_structure
                                                ''build a todo app''))]),
                  SubmitK (AwaitAnalysis ''build a todo app''), False)]\<rparr>"
  by (simp add: run_events_snoc built_run)
     (simp add: handleSubmit_begin_def await_def emit_def initial_state_def trim_todo Let_def)

lemma fetched_run:
  "run_events scenario_deps existing_project [Effect Idle] =
     \<lparr>comp = initial_state\<lparr>loadingCode := True, projectStatus := Loading,
               currentProjectId := Some 42, trace := [Request (Get (ApiProjects 42))]\<rparr>,
      pending = [(Get (ApiProjects 42), FetchK AwaitProject, True)]\<rparr>"
  "run_events scenario_deps existing_project
     [Effect Idle, Settle 0 (Inr (project_record 42 (JStr ''https://preview.example/42''))) 0 0] =
     \<lparr>comp = initial_state\<lparr>previewUrl := JStr ''https://preview.example/42'',
               projectStatus := Ready, hasInitialized := True,
               currentProjectId := Some 42, trace := [Request (Get (ApiProjects 42))]\<rparr>,
      pending = []\<rparr>"
  by (simp_all add: run_events_def mounted_def existing_project_def initializeProject_def
                fetchProjectDeploymentUrl_begin_def fetch_finally_def
                await_def finished_def emit_def initial_state_def project_record_def)

lemma mounted_twice:
  "run_events scenario_deps new_project [Effect Idle, Effect Idle] =
     \<lparr>comp = initial_state\<lparr>prompt := ''build a todo app'', hasInitialized := True,
               isGenerating := True, loadingCode := True, projectStatus := Loading,
               trace := [Request (Get (ApiProjects 42))]\<rparr>,
      pending = [(Get (ApiProjects 42), GenK (AwaitExisting ''build a todo app'' (Some 42)), True)]\<rparr>"
  by (simp add: run_events_def mounted_def new_project_def initializeProject_def
                generateCode_begin_def await_def finished_def emit_def initial_state_def)

text \<open>
  The test at the head of \<open>fetchProjectDeploymentUrl\<close> is there to stop a second
  call for the same project, but the callback that the mount effect holds has seen the
  status \<open>idle\<close>, so it does not: on a page opened for an existing project the
  mount effect, fired twice, starts two fetches. When the first is rejected and the
  second finds the URL, the status goes from \<open>error\<close> to \<open>ready\<close>.
\<close>

lemma overlapping_fetches:
  "projectStatus (comp (run_events scenario_deps existing_project
      [Effect Idle, Effect Idle, Settle 0 (Inl network_error) 0 0])) = Error \<and>
   projectStatus (comp (run_events scenario_deps existing_project
      [Effect Idle, Effect Idle, Settle 0 (Inl network_error) 0 0,
       Settle 0 (Inr (project_record 42 (JStr ''https://preview.example/42''))) 0 0])) = Ready"
  by (simp add: run_events_def mounted_def existing_project_def initializeProject_def
                fetchProjectDeploymentUrl_begin_def fetch_catch_def fetch_finally_def
                await_def finished_def emit_def initial_state_def project_record_def)

section \<open>The claims about the page as a whole\<close>

text \<open>
  C4, as amended. A mounted page has two guards, one for each pipeline, and neither
  looks at the other: after any events at most one run of \<open>generateCode\<close> is
  pending, and the ref \<open>isGenerating\<close> is set exactly while one is; at most one run
  of \<open>handleSubmit\<close> is pending, and \<open>isLoading\<close> is set exactly while one is. A
  call made while its guard is set is absorbed: it returns at once, awaits nothing and
  leaves the state, error message and trace included, as it was. A call of
  \<open>generateCode\<close> made while its guard is clear is admitted, and every run ends,
  whether in success or in failure, with its guard clear again, so that a later call is
  admitted.
\<close>

theorem one_run_of_each_kind:
  fixes d loc evs
  defines "sys \<equiv> run_events d loc evs"
  shows "active_generations sys \<le> 1 \<and>
         (isGenerating (comp sys) \<longleftrightarrow> active_generations sys = 1) \<and>
         active_modifications sys \<le> 1 \<and>
         (isLoading (comp sys) \<longleftrightarrow> active_modifications sys = 1) \<and>
         (isGenerating s \<longrightarrow>
            generateCode_begin u projId s = (s, None) \<and> generateCode d env u projId s = s) \<and>
         (\<not> isGenerating s \<longrightarrow>
            snd (generateCode_begin u projId s) \<noteq> None \<and>
            \<not> isGenerating (generateCode d env u projId s)) \<and>
         (isLoading s \<longrightarrow>
            handleSubmit_begin d now date s = (s, None) \<and>
            handleSubmit d env now date now' date' s = s) \<and>
         (\<not> isLoading s \<longrightarrow> \<not> isLoading (handleSubmit d env now date now' date' s))"
proof -
  have "guard_agrees sys"
    unfolding sys_def by (rule guard_agrees_run)
  then have 1: "active_generations sys \<le> 1"
    and 2: "isGenerating (comp sys) \<longleftrightarrow> active_generations sys = 1"
    by (auto simp: guard_agrees_def split: if_splits)
  have "loading_agrees sys"
    unfolding sys_def by (rule loading_agrees_run)
  then have 3: "active_modifications sys \<le> 1"
    and 4: "isLoading (comp sys) \<longleftrightarrow> active_modifications sys = 1"
    by (auto simp: loading_agrees_def split: if_splits)
  have 5: "isGenerating s \<longrightarrow>
             generateCode_begin u projId s = (s, None) \<and> generateCode d env u projId s = s"
    by (simp add: generateCode_def generateCode_begin_def finished_def)
  have 6: "\<not> isGenerating s \<longrightarrow> snd (generateCode_begin u projId s) \<noteq> None"
    by (simp add: generateCode_begin_def await_def post_generateFrontend_def Let_def)
  have 7: "\<not> isGenerating s \<longrightarrow> \<not> isGenerating (generateCode d env u projId s)"
    using generateCode_done [of s d env projId u] by (simp add: gen_done_def)
  have 8: "isLoading s \<longrightarrow>
             handleSubmit_begin d now date s = (s, None) \<and>
             handleSubmit d env now date now' date' s = s"
    by (simp add: handleSubmit_def handleSubmit_begin_def finished_def)
  have 9: "\<not> isLoading s \<longrightarrow> \<not> isLoading (handleSubmit d env now date now' date' s)"
    by (simp add: handleSubmit_releases)
  from 1 2 3 4 5 6 7 8 9 show ?thesis by blast
qed

theorem one_run_of_each_kind_witness:
  "isGenerating (comp (run_events scenario_deps new_project (built_events @ [Submit 10 11]))) \<and>
   active_generations (run_events scenario_deps new_project (built_events @ [Submit 10 11])) = 1 \<and>
   isLoading (comp (run_events scenario_deps new_project (built_events @ [Submit 10 11]))) \<and>
   active_modifications (run_events scenario_deps new_project (built_events @ [Submit 10 11])) = 1 \<and>
   generateCode scenario_deps services ''build a todo app'' (Some 42)
       (comp (run_events scenario_deps new_project (built_events @ [Submit 10 11]))) =
     comp (run_events scenario_deps new_project (built_events @ [Submit 10 11])) \<and>
   handleSubmit scenario_deps services 3 4 5 6
       (comp (run_events scenario_deps new_project (built_events @ [Submit 10 11]))) =
     comp (run_events scenario_deps new_project (built_events @ [Submit 10 11])) \<and>
   \<not> isGenerating initial_state \<and>
   \<not> isGenerating (generateCode scenario_deps services ''build a todo app'' (Some 42)
                       initial_state) \<and>
   \<not> isLoading showing_42 \<and>
   \<not> isLoading (handleSubmit scenario_deps services 1000 1001 2000 2001 showing_42)"
proof -
  let ?sys = "run_events scenario_deps new_project (built_events @ [Submit 10 11])"
  have 1: "isGenerating (comp ?sys)" "isLoading (comp ?sys)"
    by (simp_all add: overlap_run)
  have 2: "\<not> isGenerating initial_state" "\<not> isLoading showing_42"
    by (simp_all add: initial_state_def showing_42_def)
  show ?thesis
    using one_run_of_each_kind
            [where d = scenario_deps and loc = new_project and evs = "built_events @ [Submit 10 11]"
               and s = "comp ?sys" and u = "''build a todo app''" and projId = "Some 42"
               and env = services and now = 3 and date = 4 and now' = 5 and date' = 6]
          one_run_of_each_kind
            [where d = scenario_deps and loc = new_project and evs = "[]"
               and s = initial_state and u = "''build a todo app''" and projId = "Some 42"
               and env = services and now = 1000 and date = 1001 and now' = 2000
               and date' = 2001]
          one_run_of_each_kind
            [where d = scenario_deps and loc = new_project and evs = "[]"
               and s = showing_42 and u = "''build a todo app''" and projId = "Some 42"
               and env = services and now = 1000 and date = 1001 and now' = 2000
               and date' = 2001]
          1 2
    by blast
qed

text \<open>
  C4 as stated fails: on the page of project 42 the generation has built the preview
  and waits for the record request; the status is \<open>ready\<close>, the send button is
  enabled and the prompt still holds the text the page was opened with. The user
  submits: now a generation run and a modification run are pending together, for the
  same project.
\<close>

theorem generation_and_modification_overlap_counterexample:
  "projectId new_project = Some 42 \<and>
   map (\<lambda>t. fst (snd t)) (pending (run_events scenario_deps new_project (built_events @ [Submit 10 11]))) =
     [GenK AwaitRecord, SubmitK (AwaitAnalysis ''build a todo app'')] \<and>
   map (\<lambda>t. endpoint_of (fst t))
       (pending (run_events scenario_deps new_project (built_events @ [Submit 10 11]))) =
     [ApiProjects 42, GenerateChanges] \<and>
   active_generations (run_events scenario_deps new_project (built_events @ [Submit 10 11])) +
   active_modifications (run_events scenario_deps new_project (built_events @ [Submit 10 11])) = 2"
  by (simp add: overlap_run active_generations_def active_modifications_def)
     (simp add: new_project_def record_request_def)

text \<open>
  C9, as amended. Take a mounted page whose mount effect, if the page was opened for
  an existing project, has fired at most once. At any event the display status stays
  as it is or changes in one of these ways: to \<open>loading\<close>, when the mount effect
  issues a command; from \<open>loading\<close> to \<open>ready\<close> or \<open>error\<close>, when a request of
  the pending generation settles; from \<open>ready\<close> to \<open>error\<close>, with no new command,
  when the record request of the pending generation settles (it is rejected after a
  successful build); from \<open>loading\<close> to \<open>ready\<close> or \<open>error\<close>, when the request
  of the pending fetch settles. In particular the status never returns to \<open>idle\<close>,
  and neither typing nor any step of \<open>handleSubmit\<close> changes it.
\<close>

theorem status_transitions:
  fixes d loc evs ev
  defines "sys \<equiv> run_events d loc evs"
  defines "old \<equiv> projectStatus (comp sys)"
  defines "new \<equiv> projectStatus (comp (run_events d loc (evs @ [ev])))"
  assumes "fetches loc \<longrightarrow> commands (evs @ [ev]) \<le> 1"
  shows "new = old \<or>
         is_command ev \<and> new = Loading \<or>
         (\<exists>k. settled sys ev = Some (GenK k)) \<and> old = Loading \<and> (new = Ready \<or> new = Error) \<or>
         settled sys ev = Some (GenK AwaitRecord) \<and> old = Ready \<and> new = Error \<or>
         settled sys ev = Some (FetchK AwaitProject) \<and> old = Loading \<and>
           (new = Ready \<or> new = Error)"
proof -
  have once: "fetches loc \<longrightarrow> commands evs \<le> 1"
    using assms(4) by (auto simp: commands_snoc split: if_splits)
  have "settled sys ev = Some (FetchK AwaitProject) \<longrightarrow> old = Loading"
    unfolding sys_def old_def using fetch_settles_from_loading [OF once] by blast
  then show ?thesis
    using status_step [OF status_inv_run [of loc d evs], of d ev]
    unfolding sys_def old_def new_def run_events_snoc transition_ok_def by blast
qed

theorem status_transitions_witness:
  "\<not> fetches new_project \<and>
   settled (run_events scenario_deps new_project built_events)
     (Settle 0 (Inl network_error) 0 0) = Some (GenK AwaitRecord) \<and>
   projectStatus (comp (run_events scenario_deps new_project built_events)) = Ready \<and>
   projectStatus (comp (run_events scenario_deps new_project
                          (built_events @ [Settle 0 (Inl network_error) 0 0]))) = Error \<and>
   fetches existing_project \<and>
   commands ([Effect Idle] @
             [Settle 0 (Inr (project_record 42 (JStr ''https://preview.example/42''))) 0 0]) \<le> 1 \<and>
   settled (run_events scenario_deps existing_project [Effect Idle])
     (Settle 0 (Inr (project_record 42 (JStr ''https://preview.example/42''))) 0 0) =
     Some (FetchK AwaitProject) \<and>
   projectStatus (comp (run_events scenario_deps existing_project [Effect Idle])) = Loading \<and>
   projectStatus (comp (run_events scenario_deps existing_project
      ([Effect Idle] @
       [Settle 0 (Inr (project_record 42 (JStr ''https://preview.example/42''))) 0 0]))) = Ready"
proof -
  have 1: "fetches new_project \<longrightarrow>
             commands (built_events @ [Settle 0 (Inl network_error) 0 0]) \<le> 1"
    by (simp add: fetches_def new_project_def)
  have 2: "fetches existing_project \<longrightarrow>
      commands ([Effect Idle] @
             [Settle 0 (Inr (project_record 42 (JStr ''https://preview.example/42''))) 0 0]) \<le> 1"
    by (simp add: commands_def)
  have 3: "fetches existing_project" "\<not> fetches new_project"
    by (simp_all add: fetches_def existing_project_def new_project_def)
  from status_transitions
         [where d = scenario_deps and loc = new_project and evs = built_events
            and ev = "Settle 0 (Inl network_error) 0 0", OF 1]
       status_transitions
         [where d = scenario_deps and loc = existing_project and evs = "[Effect Idle]"
            and ev = "Settle 0 (Inr (project_record 42 (JStr ''https://preview.example/42''))) 0 0",
          OF 2]
       1 2 3
  show ?thesis
    by (simp add: built_run record_rejected_run fetched_run)
qed

text \<open>
  C9 as stated fails: after a successful build the status is \<open>ready\<close>; when the
  record request is then rejected, which is not a command, it becomes \<open>error\<close>.
\<close>

theorem status_ready_to_error_counterexample:
  "projectStatus (comp (run_events scenario_deps new_project built_events)) = Ready \<and>
   projectStatus (comp (run_events scenario_deps new_project
                          (built_events @ [Settle 0 (Inl network_error) 0 0]))) = Error \<and>
   \<not> is_command (Settle 0 (Inl network_error) 0 0)"
  by (simp add: built_run record_rejected_run)

text \<open>
  C10. A call of \<open>handleSubmit\<close> while the prompt is empty or consists of white
  space only (any of the characters that \<open>trim\<close> strips), or while an earlier call
  is still in flight, returns at once: nothing is awaited and the state, the message
  log and the trace included, is what it was. On the mounted page, a modification is
  in flight exactly while \<open>isLoading\<close> is set, so that a submit during that time
  changes nothing.
\<close>

theorem handleSubmit_guard:
  "((prompt s = concat cs \<and> set cs \<subseteq> set white_space) \<or> isLoading s \<longrightarrow>
      handleSubmit_begin d now date s = (s, None) \<and>
      handleSubmit d env now date now' date' s = s) \<and>
   (0 < active_modifications (run_events d loc evs) \<longrightarrow>
      isLoading (comp (run_events d loc evs)) \<and>
      run_events d loc (evs @ [Submit now date]) = run_events d loc evs)"
proof -
  have "prompt s = concat cs \<and> set cs \<subseteq> set white_space \<longrightarrow> trim (prompt s) = []"
    by (auto simp: trim_white_space)
  then have 1: "(prompt s = concat cs \<and> set cs \<subseteq> set white_space) \<or> isLoading s \<longrightarrow>
      handleSubmit_begin d now date s = (s, None) \<and>
      handleSubmit d env now date now' date' s = s"
    by (auto simp: handleSubmit_def handleSubmit_begin_def finished_def)
  have "loading_agrees (run_events d loc evs)"
    by (rule loading_agrees_run)
  then have 2: "0 < active_modifications (run_events d loc evs) \<longrightarrow>
                  isLoading (comp (run_events d loc evs))"
    by (auto simp: loading_agrees_def split: if_splits)
  have 3: "isLoading (comp (run_events d loc evs)) \<longrightarrow>
             run_events d loc (evs @ [Submit now date]) = run_events d loc evs"
    by (simp add: run_events_snoc submit_absorbed del: step.simps)
  from 1 2 3 show ?thesis by blast
qed

theorem handleSubmit_guard_witness:
  "prompt (showing_42\<lparr>prompt := blank_prompt\<rparr>) =
     concat [[CHR 0xC2, CHR 0xA0], [CHR 0x20], [CHR 0xE3, CHR 0x80, CHR 0x80], [CHR 0x09],
             [CHR 0x0A]] \<and>
   set [[CHR 0xC2, CHR 0xA0], [CHR 0x20], [CHR 0xE3, CHR 0x80, CHR 0x80], [CHR 0x09],
        [CHR 0x0A]] \<subseteq> set white_space \<and>
   handleSubmit scenario_deps services 1000 1001 2000 2001 (showing_42\<lparr>prompt := blank_prompt\<rparr>) =
     showing_42\<lparr>prompt := blank_prompt\<rparr> \<and>
   0 < active_modifications
         (run_events scenario_deps new_project
            (built_events @ [Submit 10 11, Typing ''add a dark mode toggle''])) \<and>
   run_events scenario_deps new_project
     ((built_events @ [Submit 10 11, Typing ''add a dark mode toggle'']) @ [Submit 12 13]) =
   run_events scenario_deps new_project
     (built_events @ [Submit 10 11, Typing ''add a dark mode toggle''])"
proof -
  have 1: "prompt (showing_42\<lparr>prompt := blank_prompt\<rparr>) =
     concat [[CHR 0xC2, CHR 0xA0], [CHR 0x20], [CHR 0xE3, CHR 0x80, CHR 0x80], [CHR 0x09],
             [CHR 0x0A]]"
    by (simp add: blank_prompt_def)
  have 2: "set [[CHR 0xC2, CHR 0xA0], [CHR 0x20], [CHR 0xE3, CHR 0x80, CHR 0x80], [CHR 0x09],
        [CHR 0x0A]] \<subseteq> set white_space"
    by (simp add: white_space_def)
  have 3: "0 < active_modifications
         (run_events scenario_deps new_project
            (built_events @ [Submit 10 11, Typing ''add a dark mode toggle'']))"
    using run_events_snoc
            [of scenario_deps new_project "built_events @ [Submit 10 11]"
               "Typing ''add a dark mode toggle''"]
    by (simp add: overlap_run active_modifications_def)
  from handleSubmit_guard
         [where s = "showing_42\<lparr>prompt := blank_prompt\<rparr>"
            and cs = "[[CHR 0xC2, CHR 0xA0], [CHR 0x20], [CHR 0xE3, CHR 0x80, CHR 0x80],
                       [CHR 0x09], [CHR 0x0A]]"
            and d = scenario_deps and env = services and now = 1000 and date = 1001
            and now' = 2000 and date' = 2001 and loc = new_project and evs = "[]"]
       handleSubmit_guard
         [where s = initial_state and cs = "[]"
            and d = scenario_deps and env = services and now = 12 and date = 13
            and now' = 14 and date' = 15 and loc = new_project
            and evs = "built_events @ [Submit 10 11, Typing ''add a dark mode toggle'']"]
       1 2 3
  show ?thesis by blast
qed

end
